theory Spec2Isabelle
  imports Main
begin

section \<open>JavaScript values used by the front end\<close>

text \<open>
  The front end is TypeScript. A value of type \<^verbatim>\<open>string | null\<close> is a
  \<^typ>\<open>string option\<close>; it is truthy when it is neither \<^verbatim>\<open>null\<close> nor the
  empty string. \<^verbatim>\<open>x || undefined\<close> keeps a truthy string and drops a falsy one.
\<close>

definition truthy :: "string option \<Rightarrow> bool" where
  "truthy s = (case s of None \<Rightarrow> False | Some t \<Rightarrow> t \<noteq> [])"

definition or_undefined :: "string option \<Rightarrow> string option" where
  "or_undefined s = (if truthy s then s else None)"

text \<open>
  Comparison of two JavaScript strings with \<^verbatim>\<open><=\<close>: lexicographic on the
  code units, a proper prefix being smaller.
\<close>

fun js_str_le :: "string \<Rightarrow> string \<Rightarrow> bool" where
  "js_str_le [] ys = True"
| "js_str_le (x # xs) [] = False"
| "js_str_le (x # xs) (y # ys) =
     (if (of_char x :: nat) < of_char y then True
      else if (of_char y :: nat) < of_char x then False
      else js_str_le xs ys)"

text \<open>
  \<^verbatim>\<open>parseInt(s)\<close> with no radix: leading white space is skipped, one sign is
  read, a \<^verbatim>\<open>0x\<close> prefix switches to base 16, and the longest run of digits is
  converted. No digit at all gives \<^verbatim>\<open>NaN\<close>, which is \<open>None\<close> here. Numbers are
  unbounded integers in this model (the source's doubles agree with them below \<open>2^53\<close>).
\<close>

definition is_ws :: "char \<Rightarrow> bool" where
  "is_ws c = ((of_char c :: nat) \<in> {9, 10, 11, 12, 13, 32})"

definition digit_val :: "nat \<Rightarrow> char \<Rightarrow> nat option" where
  "digit_val radix c =
     (let n = (of_char c :: nat);
          v = (if 48 \<le> n \<and> n \<le> 57 then Some (n - 48)
               else if 97 \<le> n \<and> n \<le> 102 then Some (n - 87)
               else if 65 \<le> n \<and> n \<le> 70 then Some (n - 55)
               else None)
      in case v of None \<Rightarrow> None | Some d \<Rightarrow> if d < radix then Some d else None)"

definition digits_value :: "nat \<Rightarrow> string \<Rightarrow> nat" where
  "digits_value radix ds = foldl (\<lambda>a c. a * radix + the (digit_val radix c)) 0 ds"

definition parse_digits :: "nat \<Rightarrow> string \<Rightarrow> nat option" where
  "parse_digits radix s =
     (let ds = takeWhile (\<lambda>c. digit_val radix c \<noteq> None) s
      in if ds = [] then None else Some (digits_value radix ds))"

definition parse_unsigned :: "string \<Rightarrow> nat option" where
  "parse_unsigned s =
     (case s of
        a # b # r \<Rightarrow>
          if a = CHR ''0'' \<and> (b = CHR ''x'' \<or> b = CHR ''X'') then parse_digits 16 r
          else parse_digits 10 s
      | _ \<Rightarrow> parse_digits 10 s)"

definition parseInt :: "string \<Rightarrow> int option" where
  "parseInt s =
     (let t = dropWhile is_ws s
      in case t of
           [] \<Rightarrow> None
         | c # r \<Rightarrow>
             if c = CHR ''-'' then map_option (\<lambda>n. - int n) (parse_unsigned r)
             else if c = CHR ''+'' then map_option int (parse_unsigned r)
             else map_option int (parse_unsigned t))"

text \<open>\<^verbatim>\<open>n || d\<close> on a number: \<^verbatim>\<open>NaN\<close>, \<^verbatim>\<open>undefined\<close> and \<open>0\<close> are falsy.\<close>

definition num_or :: "int option \<Rightarrow> int \<Rightarrow> int" where
  "num_or n d = (case n of None \<Rightarrow> d | Some v \<Rightarrow> if v = 0 then d else v)"

text \<open>\<^verbatim>\<open>s.toLowerCase()\<close> on the ASCII letters, which is all the key names compared below contain.\<close>

definition lower_char :: "char \<Rightarrow> char" where
  "lower_char c =
     (let n = (of_char c :: nat) in if 65 \<le> n \<and> n \<le> 90 then char_of (n + 32) else c)"

definition toLowerCase :: "string \<Rightarrow> string" where
  "toLowerCase s = map lower_char s"

text \<open>\<^verbatim>\<open>xs.findIndex(p)\<close>: the first index whose element satisfies \<open>p\<close>, or \<open>-1\<close>.\<close>

fun findIndex :: "('a \<Rightarrow> bool) \<Rightarrow> 'a list \<Rightarrow> int" where
  "findIndex p [] = -1"
| "findIndex p (x # xs) =
     (if p x then 0 else (let r = findIndex p xs in if r < 0 then -1 else r + 1))"

section \<open>Interactive queue (pages/InteractiveQueue.tsx)\<close>

subsection \<open>Types (types/index.ts)\<close>

datatype ApprovalType = choose_one | accept_reject

text \<open>
  Field \<^verbatim>\<open>id\<close> of the source is written \<open>opt_id\<close>, \<open>ai_id\<close>, \<open>gen_id\<close> here,
  since \<open>id\<close> is the identity function of HOL; other fields that several interfaces share
  carry a short prefix of their interface.
\<close>

record GeneratedOption =
  opt_id :: string
  opt_type :: string
  image_path :: "string option"
  image_data_url :: "string option"
  text_content :: "string option"

record ApprovalItem =
  ai_id :: string
  ai_asset_id :: string
  asset_description :: string
  ai_step_id :: string
  step_name :: string
  step_index :: int
  total_steps :: int
  approval_type :: ApprovalType
  options :: "GeneratedOption list"
  attempt :: int
  max_attempts :: int

record GeneratingItem =
  gen_id :: string
  gen_asset_id :: string
  gen_step_id :: string
  progress :: int

record QueueStatus =
  total_assets :: nat
  completed_assets :: nat
  failed_assets :: nat
  awaiting_approval :: nat
  currently_generating :: nat
  pending :: nat
  is_running :: bool
  is_paused :: bool

record ApprovalDecision =
  item_id :: string
  approved :: bool
  selected_option_id :: "string option"
  regenerate :: "bool option"

text \<open>The requests the page sends (api/client.ts).\<close>

datatype api_call =
    SubmitInteractiveApproval ApprovalDecision
  | SkipApproval string
  | RegenerateItem string
  | PauseInteractive
  | ResumeInteractive
  | StopInteractive

subsection \<open>Component state\<close>

text \<open>
  The state of the component, without \<^verbatim>\<open>zoomedImage\<close> and \<^verbatim>\<open>showSidebar\<close>, which
  only the image overlay and the sidebar toggle read and write.
\<close>

record ui =
  status :: "QueueStatus option"
  currentItem :: "ApprovalItem option"
  pendingItems :: "ApprovalItem list"
  generatingItems :: "GeneratingItem list"
  selectedOption :: "string option"
  loading :: bool

text \<open>
  What the four requests of \<^verbatim>\<open>loadQueue\<close> returned. \<^verbatim>\<open>Promise.all\<close> rejects as
  soon as one of them fails; the whole refresh is then \<open>None\<close>.
\<close>

record fetched =
  statusRes :: QueueStatus
  nextRes :: "ApprovalItem option"
  allRes :: "ApprovalItem list"
  genRes :: "GeneratingItem list"

text \<open>
  The environment of one handler run: whether its own request succeeded, and what the
  refresh that follows it fetched.
\<close>

record env =
  call_ok :: bool
  refresh :: "fetched option"

subsection \<open>loadQueue\<close>

definition loadQueue :: "fetched option \<Rightarrow> ui \<Rightarrow> ui" where
  "loadQueue res u =
     (case res of
        None \<Rightarrow> u
      | Some r \<Rightarrow>
          (let u1 = u\<lparr>status := Some (statusRes r),
                      currentItem := nextRes r,
                      pendingItems := drop 1 (allRes r),
                      generatingItems := genRes r\<rparr>
           in case nextRes r of
                None \<Rightarrow> u1
              | Some item \<Rightarrow>
                  if approval_type item = choose_one \<and> length (options item) > 0
                  then u1\<lparr>selectedOption := Some (opt_id (options item ! 0))\<rparr>
                  else u1\<lparr>selectedOption := None\<rparr>))"

subsection \<open>Handlers\<close>

text \<open>
  Every handler returns at once when there is no current item. Otherwise it sets
  \<^verbatim>\<open>loading\<close>, sends its request, refreshes the queue when the request succeeded,
  and clears \<^verbatim>\<open>loading\<close> in its \<^verbatim>\<open>finally\<close> block. The result is the list of
  requests sent and the state once the handler has finished.
\<close>

definition after_call :: "env \<Rightarrow> ui \<Rightarrow> ui" where
  "after_call e u =
     (if call_ok e then (loadQueue (refresh e) u)\<lparr>loading := False\<rparr>
      else u\<lparr>loading := False\<rparr>)"

definition handleApprove :: "env \<Rightarrow> ui \<Rightarrow> api_call list \<times> ui" where
  "handleApprove e u =
     (case currentItem u of
        None \<Rightarrow> ([], u)
      | Some item \<Rightarrow>
          ([SubmitInteractiveApproval
              \<lparr>item_id = ai_id item, approved = True,
               selected_option_id = or_undefined (selectedOption u),
               regenerate = None\<rparr>],
           after_call e u))"

definition handleReject :: "env \<Rightarrow> ui \<Rightarrow> api_call list \<times> ui" where
  "handleReject e u =
     (case currentItem u of
        None \<Rightarrow> ([], u)
      | Some item \<Rightarrow>
          ([SubmitInteractiveApproval
              \<lparr>item_id = ai_id item, approved = False,
               selected_option_id = None,
               regenerate = Some True\<rparr>],
           after_call e u))"

definition handleRegenerate :: "env \<Rightarrow> ui \<Rightarrow> api_call list \<times> ui" where
  "handleRegenerate e u =
     (case currentItem u of
        None \<Rightarrow> ([], u)
      | Some item \<Rightarrow> ([RegenerateItem (ai_id item)], after_call e u))"

definition handleSkip :: "env \<Rightarrow> ui \<Rightarrow> api_call list \<times> ui" where
  "handleSkip e u =
     (case currentItem u of
        None \<Rightarrow> ([], u)
      | Some item \<Rightarrow> ([SkipApproval (ai_id item)], after_call e u))"

text \<open>
  The two header buttons. \<^verbatim>\<open>status?.is_paused\<close> is falsy without a status. The
  \<^verbatim>\<open>onComplete\<close> callback of \<^verbatim>\<open>handleStop\<close> belongs to the parent component.
\<close>

definition handlePauseResume :: "env \<Rightarrow> ui \<Rightarrow> api_call list \<times> ui" where
  "handlePauseResume e u =
     ([if (case status u of None \<Rightarrow> False | Some s \<Rightarrow> is_paused s)
       then ResumeInteractive else PauseInteractive],
      if call_ok e then loadQueue (refresh e) u else u)"

definition handleStop :: "env \<Rightarrow> ui \<Rightarrow> api_call list \<times> ui" where
  "handleStop e u = ([StopInteractive], u)"

text \<open>
  \<^verbatim>\<open>navigateOption\<close>: the index it moves to is computed by \<open>navigateIndex\<close>, from
  the options, the selection and the direction.
\<close>

definition navigateIndex :: "GeneratedOption list \<Rightarrow> string option \<Rightarrow> int \<Rightarrow> int" where
  "navigateIndex opts sel direction =
     (let currentIndex = (if truthy sel then findIndex (\<lambda>opt. Some (opt_id opt) = sel) opts else -1);
          newIndex = currentIndex + direction;
          newIndex = (if newIndex < 0 then int (length opts) - 1 else newIndex);
          newIndex = (if newIndex \<ge> int (length opts) then 0 else newIndex)
      in newIndex)"

definition navigateOption :: "int \<Rightarrow> ui \<Rightarrow> ui" where
  "navigateOption direction u =
     (case currentItem u of
        None \<Rightarrow> u
      | Some item \<Rightarrow>
          if length (options item) = 0 then u
          else u\<lparr>selectedOption :=
                   Some (opt_id (options item !
                     nat (navigateIndex (options item) (selectedOption u) direction)))\<rparr>)"

text \<open>
  \<^verbatim>\<open>handleKeyDown\<close>. The number-key branch compares the key as a string with
  \<^verbatim>\<open>"1"\<close> and \<^verbatim>\<open>"9"\<close> and reads the index with \<^verbatim>\<open>parseInt\<close>; a
  \<^verbatim>\<open>NaN\<close> index is smaller than no length. A key in that range starts with a digit
  from 1 to 9 (lemma \<open>numberKey_parse\<close> below), so the index is never negative.
\<close>

definition numberKey :: "string \<Rightarrow> bool" where
  "numberKey k = (js_str_le ''1'' k \<and> js_str_le k ''9'')"

text \<open>The \<^verbatim>\<open>key\<close> of the key event of the digit \<open>k\<close>.\<close>

definition digitKey :: "nat \<Rightarrow> string" where
  "digitKey k = [char_of (48 + k)]"

definition handleKeyDown :: "string \<Rightarrow> env \<Rightarrow> ui \<Rightarrow> api_call list \<times> ui" where
  "handleKeyDown k e u =
     (case currentItem u of
        None \<Rightarrow> ([], u)
      | Some item \<Rightarrow>
          if loading u then ([], u)
          else if numberKey k then
            (case map_option (\<lambda>n. n - 1) (parseInt k) of
               None \<Rightarrow> ([], u)
             | Some index \<Rightarrow>
                 if index < int (length (options item))
                 then ([], u\<lparr>selectedOption := Some (opt_id (options item ! nat index))\<rparr>)
                 else ([], u))
          else
            (let key = toLowerCase k in
             if key = ''y'' \<or> key = ''enter'' then
               (if truthy (selectedOption u) \<or> approval_type item = accept_reject
                then handleApprove e u else ([], u))
             else if key = ''n'' then handleReject e u
             else if key = ''r'' then handleRegenerate e u
             else if key = ''s'' then handleSkip e u
             else if key = ''arrowleft'' then ([], navigateOption (-1) u)
             else if key = ''arrowright'' then ([], navigateOption 1 u)
             else ([], u)))"

text \<open>
  The buttons of the action row. A disabled button sends no click. The choose-one row
  has Select and Regenerate, the accept/reject row has Accept and Reject; Skip is in
  both. Nothing of the row is rendered without a current item.
\<close>

definition approveDisabled :: "ui \<Rightarrow> bool" where
  "approveDisabled u =
     (case currentItem u of
        None \<Rightarrow> True
      | Some item \<Rightarrow>
          if approval_type item = choose_one then \<not> truthy (selectedOption u) \<or> loading u
          else loading u)"

datatype ui_event =
    KeyDown string
  | ClickOption nat
  | ClickApprove
  | ClickReject
  | ClickRegenerate
  | ClickSkip
  | ClickPauseResume
  | ClickStop
  | Poll "fetched option"
  | WsStatus QueueStatus
  | WsNewApproval "fetched option"
  | WsProgress string string int

definition dispatch :: "ui_event \<Rightarrow> env \<Rightarrow> ui \<Rightarrow> api_call list \<times> ui" where
  "dispatch ev e u =
     (case ev of
        KeyDown k \<Rightarrow> handleKeyDown k e u
      | ClickOption i \<Rightarrow>
          (case currentItem u of
             None \<Rightarrow> ([], u)
           | Some item \<Rightarrow>
               if i < length (options item)
               then ([], u\<lparr>selectedOption := Some (opt_id (options item ! i))\<rparr>)
               else ([], u))
      | ClickApprove \<Rightarrow> if approveDisabled u then ([], u) else handleApprove e u
      | ClickReject \<Rightarrow>
          (case currentItem u of
             None \<Rightarrow> ([], u)
           | Some item \<Rightarrow>
               if approval_type item = accept_reject \<and> \<not> loading u
               then handleReject e u else ([], u))
      | ClickRegenerate \<Rightarrow>
          (case currentItem u of
             None \<Rightarrow> ([], u)
           | Some item \<Rightarrow>
               if approval_type item = choose_one \<and> \<not> loading u
               then handleRegenerate e u else ([], u))
      | ClickSkip \<Rightarrow>
          (case currentItem u of
             None \<Rightarrow> ([], u)
           | Some item \<Rightarrow> if loading u then ([], u) else handleSkip e u)
      | ClickPauseResume \<Rightarrow> handlePauseResume e u
      | ClickStop \<Rightarrow> handleStop e u
      | Poll res \<Rightarrow> ([], loadQueue res u)
      | WsStatus s \<Rightarrow> ([], u\<lparr>status := Some s\<rparr>)
      | WsNewApproval res \<Rightarrow> ([], loadQueue res u)
      | WsProgress assetId stepId p \<Rightarrow>
          ([], u\<lparr>generatingItems :=
                   map (\<lambda>item. if gen_asset_id item = assetId \<and> gen_step_id item = stepId
                                then item\<lparr>progress := p\<rparr> else item)
                       (generatingItems u)\<rparr>))"

subsection \<open>The main area\<close>

text \<open>
  Without a current item the main area shows one of six screens, chosen from the
  \<^verbatim>\<open>status\<close> state alone; each screen is listed with the numbers it prints.
  \<^verbatim>\<open>status?.f || 0\<close> is \<open>0\<close> without a status, and \<^verbatim>\<open>status?.is_running\<close>
  is falsy then. The difference \<^verbatim>\<open>total - done\<close> may be negative.
\<close>

datatype empty_view =
    GeneratingView nat int
  | WaitingView nat int bool
  | LoadingApprovalsView nat
  | WorkOutstandingView int nat nat bool
  | AllDoneView nat nat
  | NoAssetsView

definition count_of :: "(QueueStatus \<Rightarrow> nat) \<Rightarrow> QueueStatus option \<Rightarrow> nat" where
  "count_of f st = (case st of None \<Rightarrow> 0 | Some s \<Rightarrow> f s)"

definition emptyView :: "QueueStatus option \<Rightarrow> empty_view" where
  "emptyView st =
     (let total = count_of total_assets st;
          done = count_of completed_assets st + count_of failed_assets st;
          outstanding = int total - int done;
          isGenerating = count_of currently_generating st;
          isPending = count_of pending st;
          isAwaiting = count_of awaiting_approval st;
          isRunning = (case st of None \<Rightarrow> False | Some s \<Rightarrow> is_running s)
      in if isGenerating > 0 then GeneratingView isGenerating outstanding
         else if isPending > 0 \<or> (isRunning \<and> outstanding > 0)
           then WaitingView isPending outstanding isRunning
         else if isAwaiting > 0 then LoadingApprovalsView isAwaiting
         else if outstanding > 0 then WorkOutstandingView outstanding done total isRunning
         else if total > 0 \<and> done \<ge> total
           then AllDoneView (count_of completed_assets st) (count_of failed_assets st)
         else NoAssetsView)"

datatype main_view = EmptyState empty_view | ReviewItem ApprovalItem

definition mainView :: "ui \<Rightarrow> main_view" where
  "mainView u =
     (case currentItem u of
        None \<Rightarrow> EmptyState (emptyView (status u))
      | Some item \<Rightarrow> ReviewItem item)"

subsection \<open>Runs of the page\<close>

text \<open>The initial values of the \<^verbatim>\<open>useState\<close> hooks.\<close>

definition initial_ui :: ui where
  "initial_ui = \<lparr>status = None, currentItem = None, pendingItems = [], generatingItems = [],
                 selectedOption = None, loading = False\<rparr>"

text \<open>A run handles one event after the other, each in its environment.\<close>

definition ui_run :: "(ui_event \<times> env) list \<Rightarrow> ui \<Rightarrow> ui" where
  "ui_run evs u = foldl (\<lambda>s (ev, e). snd (dispatch ev e s)) u evs"

text \<open>The selection, if there is one and an item is shown, is the id of one of the item's options.\<close>

definition sel_valid :: "ui \<Rightarrow> bool" where
  "sel_valid u =
     (case currentItem u of
        None \<Rightarrow> True
      | Some item \<Rightarrow>
          (case selectedOption u of
             None \<Rightarrow> True
           | Some s \<Rightarrow> s \<in> opt_id ` set (options item)))"

section \<open>Pipeline editors (FlowSetup in pages/FlowSetup.tsx, ArtDirection in pages/InteractiveQueue.tsx)\<close>

text \<open>
  \<^verbatim>\<open>PipelineStep\<close> of types/index.ts; \<open>ps_id\<close> and \<open>ps_type\<close> are its
  \<^verbatim>\<open>id\<close> and \<^verbatim>\<open>type\<close>. \<^verbatim>\<open>Partial<PipelineStep>\<close> has every field optional.
\<close>

record PipelineStep =
  ps_id :: string
  ps_type :: string
  provider :: "string option"
  prompt_template :: "string option"
  requires_approval :: bool
  variations :: int
  parallel_with :: "string list option"
  config :: "(string \<times> string) list"

record PartialStep =
  p_id :: "string option"
  p_type :: "string option"
  p_provider :: "string option"
  p_prompt_template :: "string option"
  p_requires_approval :: "bool option"
  p_variations :: "int option"
  p_parallel_with :: "string list option"
  p_config :: "(string \<times> string) list option"

definition no_fields :: PartialStep where
  "no_fields = \<lparr>p_id = None, p_type = None, p_provider = None, p_prompt_template = None,
                 p_requires_approval = None, p_variations = None, p_parallel_with = None,
                 p_config = None\<rparr>"

record StepTemplate =
  t_type :: string
  label :: string
  description :: string
  defaultConfig :: PartialStep

definition STEP_TEMPLATES :: "StepTemplate list" where
  "STEP_TEMPLATES =
     [\<lparr>t_type = ''research'', label = ''AI Research'',
       description = ''Research the concept for richer context'',
       defaultConfig = no_fields\<lparr>p_requires_approval := Some False, p_variations := Some 1,
                                  p_provider := Some ''tavily''\<rparr>\<rparr>,
      \<lparr>t_type = ''generate_name'', label = ''Generate Name'',
       description = ''Generate a creative name for the concept'',
       defaultConfig = no_fields\<lparr>p_requires_approval := Some True, p_variations := Some 4,
                                  p_provider := Some ''gemini'',
                                  p_prompt_template := Some ''Generate a creative name for: {description}''\<rparr>\<rparr>,
      \<lparr>t_type = ''generate_image'', label = ''Generate Image'',
       description = ''Generate main artwork'',
       defaultConfig = no_fields\<lparr>p_requires_approval := Some True, p_variations := Some 4,
                                  p_provider := Some ''gemini'',
                                  p_prompt_template := Some ''{description}''\<rparr>\<rparr>,
      \<lparr>t_type = ''generate_sprite'', label = ''Generate Sprite'',
       description = ''Generate pixel art sprite'',
       defaultConfig = no_fields\<lparr>p_requires_approval := Some True, p_variations := Some 4,
                                  p_provider := Some ''gemini'',
                                  p_prompt_template := Some ''Pixel art sprite, 32-bit style. {description}. Front-facing, game asset, clean edges.''\<rparr>\<rparr>,
      \<lparr>t_type = ''generate_text'', label = ''Generate Description'',
       description = ''Generate a text description'',
       defaultConfig = no_fields\<lparr>p_requires_approval := Some True, p_variations := Some 2,
                                  p_provider := Some ''gemini'',
                                  p_prompt_template := Some ''Write a detailed description for: {description}''\<rparr>\<rparr>,
      \<lparr>t_type = ''remove_background'', label = ''Remove Background'',
       description = ''Remove background from the previous image'',
       defaultConfig = no_fields\<lparr>p_requires_approval := Some False, p_variations := Some 1\<rparr>\<rparr>]"

text \<open>\<^verbatim>\<open>b || false\<close> on an optional boolean.\<close>

definition bool_or_false :: "bool option \<Rightarrow> bool" where
  "bool_or_false b = (case b of None \<Rightarrow> False | Some v \<Rightarrow> v)"

text \<open>
  \<^verbatim>\<open>addStep\<close>; \<open>now\<close> is the decimal text of \<^verbatim>\<open>Date.now()\<close> at the click.
\<close>

definition addStep :: "StepTemplate \<Rightarrow> string \<Rightarrow> PipelineStep list \<Rightarrow> PipelineStep list" where
  "addStep template now pipeline =
     pipeline @
     [\<lparr>ps_id = t_type template @ ''_'' @ now,
       ps_type = t_type template,
       provider = p_provider (defaultConfig template),
       prompt_template = p_prompt_template (defaultConfig template),
       requires_approval = bool_or_false (p_requires_approval (defaultConfig template)),
       variations = num_or (p_variations (defaultConfig template)) 1,
       parallel_with = None,
       config = []\<rparr>]"

text \<open>
  The spread \<^verbatim>\<open>{ ...step, ...updates }\<close>: a field that \<open>updates\<close> carries replaces the
  step's. The callers pass one field at a time.
\<close>

definition spread :: "PipelineStep \<Rightarrow> PartialStep \<Rightarrow> PipelineStep" where
  "spread step up =
     \<lparr>ps_id = (case p_id up of None \<Rightarrow> ps_id step | Some v \<Rightarrow> v),
      ps_type = (case p_type up of None \<Rightarrow> ps_type step | Some v \<Rightarrow> v),
      provider = (case p_provider up of None \<Rightarrow> provider step | Some v \<Rightarrow> Some v),
      prompt_template =
        (case p_prompt_template up of None \<Rightarrow> prompt_template step | Some v \<Rightarrow> Some v),
      requires_approval =
        (case p_requires_approval up of None \<Rightarrow> requires_approval step | Some v \<Rightarrow> v),
      variations = (case p_variations up of None \<Rightarrow> variations step | Some v \<Rightarrow> v),
      parallel_with =
        (case p_parallel_with up of None \<Rightarrow> parallel_with step | Some v \<Rightarrow> Some v),
      config = (case p_config up of None \<Rightarrow> config step | Some v \<Rightarrow> v)\<rparr>"

definition updateStep :: "nat \<Rightarrow> PartialStep \<Rightarrow> PipelineStep list \<Rightarrow> PipelineStep list" where
  "updateStep index updates pipeline =
     map (\<lambda>(i, step). if i = index then spread step updates else step)
         (zip [0 ..< length pipeline] pipeline)"

text \<open>The \<^verbatim>\<open>onChange\<close> of the Variations input of Flow Setup, on the text of the input.\<close>

definition flowVariationsChange :: "nat \<Rightarrow> string \<Rightarrow> PipelineStep list \<Rightarrow> PipelineStep list" where
  "flowVariationsChange index v pipeline =
     updateStep index (no_fields\<lparr>p_variations := Some (num_or (parseInt v) 1)\<rparr>) pipeline"

text \<open>The \<^verbatim>\<open>onChange\<close> of the Variations input of Art Direction, for the step it is drawn in.\<close>

definition artVariationsChange :: "string \<Rightarrow> string \<Rightarrow> PipelineStep list \<Rightarrow> PipelineStep list" where
  "artVariationsChange stepId v prev =
     (let val = num_or (parseInt v) 1
      in map (\<lambda>s. if ps_id s = stepId then s\<lparr>variations := val\<rparr> else s) prev)"

text \<open>
  The Approval Mode select of Art Direction: the value it shows for a step, and its
  \<^verbatim>\<open>onChange\<close> on the chosen value.
\<close>

definition approvalModeValue :: "PipelineStep \<Rightarrow> string" where
  "approvalModeValue step = (if variations step > 1 then ''choose'' else ''accept'')"

definition approvalModeChange :: "string \<Rightarrow> string \<Rightarrow> PipelineStep list \<Rightarrow> PipelineStep list" where
  "approvalModeChange stepId v prev =
     (let isChoose = (v = ''choose'')
      in map (\<lambda>s. if ps_id s = stepId
                   then s\<lparr>variations := (if isChoose then max 2 (variations s) else 1)\<rparr>
                   else s) prev)"

section \<open>Classic approval queue (ApprovalQueue in pages/ContentInput.tsx)\<close>

record GeneratedArtifact =
  art_type :: string
  art_path :: "string option"
  art_content :: "string option"

text \<open>
  \<^verbatim>\<open>QueueItem\<close>, with \<open>qi_asset_id\<close> for \<^verbatim>\<open>asset.id\<close> and \<open>qi_variations\<close> for
  \<^verbatim>\<open>step_result.variations\<close>.
\<close>

record QueueItem =
  qi_asset_id :: string
  qi_step_id :: string
  qi_variations :: "GeneratedArtifact list"

text \<open>The body of \<^verbatim>\<open>submitApproval\<close>; an absent field is \<open>None\<close>.\<close>

record ApprovalData =
  sa_asset_id :: string
  sa_step_id :: string
  sa_approved :: bool
  sa_selected_index :: "nat option"
  sa_regenerate :: "bool option"
  sa_modified_prompt :: "string option"

record aq =
  currentIndex :: nat
  selectedVariation :: "nat option"
  aq_loading :: bool
  modifiedPrompt :: string

text \<open>
  \<^verbatim>\<open>handleReject(regenerate)\<close> of the classic queue. The component renders nothing
  for an empty queue, and has no current item when \<open>currentIndex\<close> is past the end, so
  no request is sent then. \<open>ok\<close> tells whether \<^verbatim>\<open>submitApproval\<close> succeeded: the
  two resets follow the \<^verbatim>\<open>await\<close> inside the \<^verbatim>\<open>try\<close> block.
\<close>

definition ApprovalQueue_handleReject ::
  "QueueItem list \<Rightarrow> bool \<Rightarrow> bool \<Rightarrow> aq \<Rightarrow> ApprovalData list \<times> aq" where
  "ApprovalQueue_handleReject queue rg ok st =
     (if currentIndex st \<ge> length queue then ([], st)
      else
        (let item = queue ! currentIndex st;
             req = \<lparr>sa_asset_id = qi_asset_id item,
                    sa_step_id = qi_step_id item,
                    sa_approved = False,
                    sa_selected_index = None,
                    sa_regenerate = Some rg,
                    sa_modified_prompt =
                      (if rg then or_undefined (Some (modifiedPrompt st)) else None)\<rparr>
         in if ok
            then ([req], st\<lparr>modifiedPrompt := [], selectedVariation := None, aq_loading := False\<rparr>)
            else ([req], st\<lparr>aq_loading := False\<rparr>)))"

section \<open>The accept/reject loop of one asset and step\<close>

text \<open>
  The asset state machine runs in the back end, whose code is not among the source files:
  the front end only shows \<^verbatim>\<open>attempt\<close> and \<^verbatim>\<open>max_attempts\<close>. The definitions of
  this section follow the specification's transition rules.
\<close>

datatype asset_status =
  PENDING | GENERATING | AWAITING_APPROVAL | APPROVED | REJECTED | COMPLETED | FAILED | SKIPPED

record unit_state =
  u_status :: asset_status
  u_attempt :: nat
  generations :: nat

record step_policy =
  maxAttempts :: nat
  hardFail :: bool

datatype sm_event = Pick | Generated | Accept | Reject | Regenerate

text \<open>
  Modelled from the spec: the initial state of an asset in the orchestrator (absent from
  the sources). The status is \<open>PENDING\<close>, \<open>attempt\<close> starts at 1, and no generation
  has been started.
\<close>

definition initial_unit :: unit_state where
  "initial_unit = \<lparr>u_status = PENDING, u_attempt = 1, generations = 0\<rparr>"

text \<open>
  Modelled from the spec: the transition function of the asset state machine (absent
  from the sources), for a step with selection mode accept/reject.
  \<open>PENDING \<rightarrow> GENERATING\<close> when the orchestrator picks the step;
  \<open>GENERATING \<rightarrow> AWAITING_APPROVAL\<close> when the artifact is there;
  \<open>AWAITING_APPROVAL \<rightarrow> APPROVED\<close> on accept;
  \<open>AWAITING_APPROVAL \<rightarrow> REJECTED \<rightarrow> GENERATING\<close> on reject, regeneration incrementing
  \<open>attempt\<close>; if \<open>attempt \<ge> maxAttempts\<close> the reject goes to \<open>SKIPPED\<close> instead, or to
  \<open>FAILED\<close> under a hard-fail policy. An event that has no rule in the current status
  changes nothing. \<open>generations\<close> counts the entries into \<open>GENERATING\<close>.
\<close>

definition sm_step :: "step_policy \<Rightarrow> sm_event \<Rightarrow> unit_state \<Rightarrow> unit_state" where
  "sm_step pol ev u =
     (case (u_status u, ev) of
        (PENDING, Pick) \<Rightarrow> u\<lparr>u_status := GENERATING, generations := generations u + 1\<rparr>
      | (GENERATING, Generated) \<Rightarrow> u\<lparr>u_status := AWAITING_APPROVAL\<rparr>
      | (AWAITING_APPROVAL, Accept) \<Rightarrow> u\<lparr>u_status := APPROVED\<rparr>
      | (AWAITING_APPROVAL, Reject) \<Rightarrow>
          if u_attempt u \<ge> maxAttempts pol
          then u\<lparr>u_status := (if hardFail pol then FAILED else SKIPPED)\<rparr>
          else u\<lparr>u_status := REJECTED\<rparr>
      | (REJECTED, Regenerate) \<Rightarrow>
          u\<lparr>u_status := GENERATING, u_attempt := u_attempt u + 1,
            generations := generations u + 1\<rparr>
      | _ \<Rightarrow> u)"

text \<open>
  Modelled from the spec: any schedule of events applied in order (the orchestrator and
  the decision handler, absent from the sources, are the only writers of the status).
\<close>

definition sm_run :: "step_policy \<Rightarrow> sm_event list \<Rightarrow> unit_state \<Rightarrow> unit_state" where
  "sm_run pol evs u = foldl (\<lambda>s ev. sm_step pol ev s) u evs"

definition terminal :: "asset_status \<Rightarrow> bool" where
  "terminal s = (s = COMPLETED \<or> s = FAILED \<or> s = SKIPPED)"

text \<open>
  Modelled from the spec: the orchestrator's loop for one asset and step (absent from the
  sources), driven to the end: it fires the one event the status allows, and asks the
  reviewer \<open>accepts\<close>, given the attempt number, at each approval. It stops at
  \<open>APPROVED\<close> and at the terminal statuses. The measure below shows that the loop ends
  whatever the reviewer answers.
\<close>

definition run_measure :: "step_policy \<Rightarrow> unit_state \<Rightarrow> nat" where
  "run_measure pol u =
     (let d = maxAttempts pol - u_attempt u in
      if d = 0
      then (case u_status u of
              PENDING \<Rightarrow> 3 | REJECTED \<Rightarrow> 3 | GENERATING \<Rightarrow> 2 | AWAITING_APPROVAL \<Rightarrow> 1 | _ \<Rightarrow> 0)
      else 4 + 3 * d +
           (case u_status u of
              PENDING \<Rightarrow> 3 | GENERATING \<Rightarrow> 2 | AWAITING_APPROVAL \<Rightarrow> 1 | _ \<Rightarrow> 0))"

function run_unit :: "step_policy \<Rightarrow> (nat \<Rightarrow> bool) \<Rightarrow> unit_state \<Rightarrow> unit_state" where
  "run_unit pol accepts u =
     (case u_status u of
        PENDING \<Rightarrow> run_unit pol accepts (sm_step pol Pick u)
      | GENERATING \<Rightarrow> run_unit pol accepts (sm_step pol Generated u)
      | AWAITING_APPROVAL \<Rightarrow>
          run_unit pol accepts (sm_step pol (if accepts (u_attempt u) then Accept else Reject) u)
      | REJECTED \<Rightarrow> run_unit pol accepts (sm_step pol Regenerate u)
      | _ \<Rightarrow> u)"
  by pat_completeness auto
termination
  apply (relation "measure (\<lambda>(pol, accepts, u). run_measure pol u)")
  apply (auto simp: run_measure_def sm_step_def Let_def split: asset_status.splits if_splits)
  done

text \<open>The invariant of the states that a schedule reaches from the initial one.\<close>

definition reach_inv :: "step_policy \<Rightarrow> unit_state \<Rightarrow> bool" where
  "reach_inv pol u =
     (if u_status u = PENDING then generations u = 0 \<and> u_attempt u = 1
      else generations u = u_attempt u \<and> u_attempt u \<le> max 1 (maxAttempts pol)
           \<and> (u_status u = REJECTED \<longrightarrow> u_attempt u < maxAttempts pol))"

section \<open>Example values\<close>

definition opt_a :: GeneratedOption where
  "opt_a = \<lparr>opt_id = ''opt1'', opt_type = ''image'', image_path = Some ''a/v1.png'',
            image_data_url = None, text_content = None\<rparr>"

definition opt_b :: GeneratedOption where
  "opt_b = \<lparr>opt_id = ''opt2'', opt_type = ''image'', image_path = Some ''a/v2.png'',
            image_data_url = None, text_content = None\<rparr>"

definition item_a :: ApprovalItem where
  "item_a = \<lparr>ai_id = ''item_a'', ai_asset_id = ''a'', asset_description = ''a dragon'',
             ai_step_id = ''generate'', step_name = ''Generate Image'', step_index = 0,
             total_steps = 1, approval_type = choose_one, options = [opt_a, opt_b],
             attempt = 1, max_attempts = 3\<rparr>"

definition item_b :: ApprovalItem where
  "item_b = \<lparr>ai_id = ''item_b'', ai_asset_id = ''b'', asset_description = ''a knight'',
             ai_step_id = ''generate'', step_name = ''Generate Image'', step_index = 0,
             total_steps = 1, approval_type = accept_reject, options = [opt_a],
             attempt = 1, max_attempts = 3\<rparr>"

definition item_none :: ApprovalItem where
  "item_none = item_a\<lparr>ai_id := ''item_c'', options := []\<rparr>"

definition status_done :: QueueStatus where
  "status_done = \<lparr>total_assets = 2, completed_assets = 1, failed_assets = 1,
                  awaiting_approval = 0, currently_generating = 0, pending = 0,
                  is_running = False, is_paused = False\<rparr>"

definition status_busy :: QueueStatus where
  "status_busy = \<lparr>total_assets = 2, completed_assets = 0, failed_assets = 0,
                  awaiting_approval = 2, currently_generating = 1, pending = 0,
                  is_running = True, is_paused = False\<rparr>"

definition ui_empty :: ui where
  "ui_empty = \<lparr>status = None, currentItem = None, pendingItems = [], generatingItems = [],
               selectedOption = None, loading = False\<rparr>"

definition ui_a :: ui where
  "ui_a = \<lparr>status = Some status_busy, currentItem = Some item_a, pendingItems = [item_b],
           generatingItems = [], selectedOption = Some ''opt1'', loading = False\<rparr>"

definition ui_b :: ui where
  "ui_b = \<lparr>status = Some status_busy, currentItem = Some item_b, pendingItems = [],
           generatingItems = [], selectedOption = None, loading = False\<rparr>"

definition fetched_ab :: fetched where
  "fetched_ab = \<lparr>statusRes = status_busy, nextRes = Some item_a, allRes = [item_a, item_b],
                 genRes = []\<rparr>"

definition fetched_done :: fetched where
  "fetched_done = \<lparr>statusRes = status_done, nextRes = None, allRes = [], genRes = []\<rparr>"

definition env_ok :: env where
  "env_ok = \<lparr>call_ok = True, refresh = Some fetched_done\<rparr>"

definition step_art :: PipelineStep where
  "step_art = \<lparr>ps_id = ''portrait'', ps_type = ''generate_image'', provider = Some ''gemini'',
               prompt_template = Some ''{description}'', requires_approval = True,
               variations = 1, parallel_with = None, config = []\<rparr>"

definition step_name_gen :: PipelineStep where
  "step_name_gen = \<lparr>ps_id = ''name'', ps_type = ''generate_name'', provider = Some ''gemini'',
                    prompt_template = None, requires_approval = True,
                    variations = 4, parallel_with = None, config = []\<rparr>"

definition queue_item_a :: QueueItem where
  "queue_item_a = \<lparr>qi_asset_id = ''a'', qi_step_id = ''portrait'',
                   qi_variations = [\<lparr>art_type = ''image'', art_path = Some ''a/v1.png'',
                                     art_content = None\<rparr>]\<rparr>"

definition aq_typed :: aq where
  "aq_typed = \<lparr>currentIndex = 0, selectedVariation = Some 0, aq_loading = False,
               modifiedPrompt = ''more red''\<rparr>"

definition policy3 :: step_policy where
  "policy3 = \<lparr>maxAttempts = 3, hardFail = False\<rparr>"

definition three_rejections :: "sm_event list" where
  "three_rejections =
     [Pick, Generated, Reject, Regenerate, Generated, Reject, Regenerate, Generated]"

section \<open>Properties\<close>

subsection \<open>The accept/reject loop\<close>

lemma sm_step_terminal: "terminal (u_status u) \<Longrightarrow> sm_step pol ev u = u"
  by (auto simp: sm_step_def terminal_def)

lemma sm_run_terminal: "terminal (u_status u) \<Longrightarrow> sm_run pol evs u = u"
  by (induction evs arbitrary: u) (simp_all add: sm_run_def sm_step_terminal)

lemma reach_inv_initial: "reach_inv pol initial_unit"
  by (simp add: reach_inv_def initial_unit_def)

lemma reach_inv_step: "reach_inv pol u \<Longrightarrow> reach_inv pol (sm_step pol ev u)"
  by (cases "u_status u"; cases ev) (auto simp: reach_inv_def sm_step_def split: if_splits)

lemma reach_inv_run: "reach_inv pol u \<Longrightarrow> reach_inv pol (sm_run pol evs u)"
proof (induction evs arbitrary: u)
  case Nil
  then show ?case by (simp add: sm_run_def)
next
  case (Cons ev evs)
  have "sm_run pol (ev # evs) u = sm_run pol evs (sm_step pol ev u)"
    by (simp add: sm_run_def)
  with Cons reach_inv_step show ?case by simp
qed

lemma generations_bounded:
  "generations (sm_run pol evs initial_unit) \<le> max 1 (maxAttempts pol)"
  using reach_inv_run [OF reach_inv_initial, of pol evs]
  by (auto simp: reach_inv_def split: if_splits)

text \<open>
  From a generation in progress whose attempt number is within the bound, a reviewer who
  rejects everything drives the loop to its end at attempt \<open>maxAttempts\<close>.
\<close>

lemma run_generating:
  "u_status u = GENERATING \<Longrightarrow> u_attempt u \<le> maxAttempts pol \<Longrightarrow>
   generations u = u_attempt u \<Longrightarrow>
   run_unit pol (\<lambda>_. False) u =
     \<lparr>u_status = (if hardFail pol then FAILED else SKIPPED),
      u_attempt = maxAttempts pol, generations = maxAttempts pol\<rparr>"
proof (induction "maxAttempts pol - u_attempt u" arbitrary: u)
  case 0
  then have a: "u_attempt u = maxAttempts pol" by simp
  let ?w = "u\<lparr>u_status := AWAITING_APPROVAL\<rparr>"
  let ?f = "u\<lparr>u_status := (if hardFail pol then FAILED else SKIPPED)\<rparr>"
  have "run_unit pol (\<lambda>_. False) u = run_unit pol (\<lambda>_. False) ?w"
    using 0 by (subst run_unit.simps) (simp add: sm_step_def)
  also have "\<dots> = run_unit pol (\<lambda>_. False) ?f"
    using a by (subst run_unit.simps) (simp add: sm_step_def)
  also have "\<dots> = ?f"
    by (subst run_unit.simps) simp
  finally show ?case using 0 a by simp
next
  case (Suc d)
  then have a: "u_attempt u < maxAttempts pol" by simp
  let ?w = "u\<lparr>u_status := AWAITING_APPROVAL\<rparr>"
  let ?r = "u\<lparr>u_status := REJECTED\<rparr>"
  let ?g = "u\<lparr>u_status := GENERATING, u_attempt := u_attempt u + 1,
              generations := generations u + 1\<rparr>"
  have "run_unit pol (\<lambda>_. False) u = run_unit pol (\<lambda>_. False) ?w"
    using Suc.prems by (subst run_unit.simps) (simp add: sm_step_def)
  also have "\<dots> = run_unit pol (\<lambda>_. False) ?r"
    using a by (subst run_unit.simps) (simp add: sm_step_def)
  also have "\<dots> = run_unit pol (\<lambda>_. False) ?g"
    by (subst run_unit.simps) (simp add: sm_step_def)
  also have "\<dots> = \<lparr>u_status = (if hardFail pol then FAILED else SKIPPED),
      u_attempt = maxAttempts pol, generations = maxAttempts pol\<rparr>"
    using Suc.hyps(2) Suc.prems a by (intro Suc.hyps(1)) simp_all
  finally show ?case .
qed

lemma run_all_rejected:
  assumes "1 \<le> maxAttempts pol"
  shows "run_unit pol (\<lambda>_. False) initial_unit =
     \<lparr>u_status = (if hardFail pol then FAILED else SKIPPED),
      u_attempt = maxAttempts pol, generations = maxAttempts pol\<rparr>"
proof -
  let ?g = "\<lparr>u_status = GENERATING, u_attempt = 1, generations = 1\<rparr>"
  have "run_unit pol (\<lambda>_. False) initial_unit = run_unit pol (\<lambda>_. False) ?g"
    by (subst run_unit.simps) (simp add: sm_step_def initial_unit_def)
  also have "\<dots> = \<lparr>u_status = (if hardFail pol then FAILED else SKIPPED),
      u_attempt = maxAttempts pol, generations = maxAttempts pol\<rparr>"
    using assms by (intro run_generating) simp_all
  finally show ?thesis .
qed

text \<open>
  C1. With an attempt bound of at least one and every approval rejected, the loop ends
  (the function is total) after exactly \<open>maxAttempts\<close> generation attempts, in
  \<open>SKIPPED\<close>, or in \<open>FAILED\<close> under a hard-fail policy. In any reachable state that awaits
  approval with \<open>maxAttempts\<close> generation attempts made, a reject leads to that terminal
  status, and no later event starts another generation. No schedule of events makes more
  than \<open>maxAttempts\<close> generation attempts.
\<close>

theorem attempt_bound:
  assumes "1 \<le> maxAttempts pol"
  shows "run_unit pol (\<lambda>_. False) initial_unit =
           \<lparr>u_status = (if hardFail pol then FAILED else SKIPPED),
            u_attempt = maxAttempts pol, generations = maxAttempts pol\<rparr>
       \<and> (\<forall>evs u. u = sm_run pol evs initial_unit \<and> u_status u = AWAITING_APPROVAL
              \<and> maxAttempts pol \<le> generations u
            \<longrightarrow> u_status (sm_step pol Reject u) = (if hardFail pol then FAILED else SKIPPED)
              \<and> (\<forall>more. generations (sm_run pol more (sm_step pol Reject u)) = generations u))
       \<and> (\<forall>evs. generations (sm_run pol evs initial_unit) \<le> maxAttempts pol)"
proof (intro conjI allI impI)
  show "run_unit pol (\<lambda>_. False) initial_unit =
           \<lparr>u_status = (if hardFail pol then FAILED else SKIPPED),
            u_attempt = maxAttempts pol, generations = maxAttempts pol\<rparr>"
    using assms by (rule run_all_rejected)
next
  fix evs u
  assume h: "u = sm_run pol evs initial_unit \<and> u_status u = AWAITING_APPROVAL
              \<and> maxAttempts pol \<le> generations u"
  then have hu: "u = sm_run pol evs initial_unit"
    and hs: "u_status u = AWAITING_APPROVAL"
    and hg: "maxAttempts pol \<le> generations u"
    by blast+
  have inv: "reach_inv pol u"
    unfolding hu by (rule reach_inv_run [OF reach_inv_initial])
  from inv hs hg have att: "maxAttempts pol \<le> u_attempt u"
    by (simp add: reach_inv_def)
  with hs show st: "u_status (sm_step pol Reject u) = (if hardFail pol then FAILED else SKIPPED)"
    by (simp add: sm_step_def)
  fix more
  have t: "terminal (u_status (sm_step pol Reject u))"
    using st by (simp add: terminal_def)
  have "generations (sm_step pol Reject u) = generations u"
    using hs att by (simp add: sm_step_def)
  with sm_run_terminal [OF t]
  show "generations (sm_run pol more (sm_step pol Reject u)) = generations u"
    by simp
next
  fix evs
  show "generations (sm_run pol evs initial_unit) \<le> maxAttempts pol"
    using generations_bounded [of pol evs] assms by (simp add: max_def split: if_splits)
qed

theorem attempt_bound_witness:
  "(1::nat) \<le> maxAttempts policy3
   \<and> run_unit policy3 (\<lambda>_. False) initial_unit =
       \<lparr>u_status = SKIPPED, u_attempt = 3, generations = 3\<rparr>
   \<and> sm_run policy3 three_rejections initial_unit
       = \<lparr>u_status = AWAITING_APPROVAL, u_attempt = 3, generations = 3\<rparr>
   \<and> u_status (sm_step policy3 Reject
        (sm_run policy3 three_rejections initial_unit)) = SKIPPED
   \<and> generations (sm_run policy3 [Regenerate, Pick]
        (sm_step policy3 Reject
        (sm_run policy3 three_rejections initial_unit))) = 3"
proof -
  have h: "1 \<le> maxAttempts policy3" by (simp add: policy3_def)
  have r: "sm_run policy3 three_rejections initial_unit
       = \<lparr>u_status = AWAITING_APPROVAL, u_attempt = 3, generations = 3\<rparr>"
    by (simp add: sm_run_def three_rejections_def sm_step_def initial_unit_def policy3_def)
  note t = attempt_bound [OF h]
  from t have a: "run_unit policy3 (\<lambda>_. False) initial_unit =
       \<lparr>u_status = SKIPPED, u_attempt = 3, generations = 3\<rparr>" by (simp add: policy3_def)
  from t have b: "\<forall>evs u. u = sm_run policy3 evs initial_unit \<and> u_status u = AWAITING_APPROVAL
              \<and> maxAttempts policy3 \<le> generations u
            \<longrightarrow> u_status (sm_step policy3 Reject u) = (if hardFail policy3 then FAILED else SKIPPED)
              \<and> (\<forall>more. generations (sm_run policy3 more (sm_step policy3 Reject u)) = generations u)"
    by blast
  have c: "u_status (sm_step policy3 Reject (sm_run policy3 three_rejections initial_unit)) = SKIPPED
     \<and> generations (sm_run policy3 [Regenerate, Pick] (sm_step policy3 Reject (sm_run policy3 three_rejections initial_unit))) = 3"
    using b [rule_format, of "sm_run policy3 three_rejections initial_unit" three_rejections] r
    by (simp add: policy3_def)
  show ?thesis using h a r c by simp
qed

subsection \<open>Interactive queue: reject, refresh, empty state\<close>

lemma numberKey_n: "\<not> numberKey ''n''" "\<not> numberKey ''N''"
  by (simp_all add: numberKey_def)

lemma lower_n: "toLowerCase ''n'' = ''n''" "toLowerCase ''N'' = ''n''"
  by code_simp+

text \<open>
  C4. With a current item, the reject action sends one decision, for that item's id, with
  \<open>approved = false\<close> and \<open>regenerate = true\<close>. The N key (when nothing is loading)
  and the Reject button of an accept/reject item run that action.
\<close>

theorem reject_requests_regeneration:
  assumes "currentItem u = Some item"
  shows "fst (handleReject e u) =
           [SubmitInteractiveApproval
              \<lparr>item_id = ai_id item, approved = False, selected_option_id = None,
               regenerate = Some True\<rparr>]
       \<and> (\<not> loading u \<longrightarrow>
            dispatch (KeyDown ''n'') e u = handleReject e u
          \<and> dispatch (KeyDown ''N'') e u = handleReject e u)
       \<and> (\<not> loading u \<and> approval_type item = accept_reject \<longrightarrow>
            dispatch ClickReject e u = handleReject e u)"
  using assms
  by (simp add: handleReject_def dispatch_def handleKeyDown_def numberKey_n lower_n Let_def)

theorem reject_requests_regeneration_witness:
  "currentItem ui_b = Some item_b
   \<and> fst (handleReject env_ok ui_b) =
       [SubmitInteractiveApproval
          \<lparr>item_id = ''item_b'', approved = False, selected_option_id = None,
           regenerate = Some True\<rparr>]
   \<and> fst (dispatch (KeyDown ''n'') env_ok ui_b) =
       [SubmitInteractiveApproval
          \<lparr>item_id = ''item_b'', approved = False, selected_option_id = None,
           regenerate = Some True\<rparr>]
   \<and> fst (dispatch ClickReject env_ok ui_b) =
       [SubmitInteractiveApproval
          \<lparr>item_id = ''item_b'', approved = False, selected_option_id = None,
           regenerate = Some True\<rparr>]"
proof -
  have c: "currentItem ui_b = Some item_b" by (simp add: ui_b_def)
  have l: "\<not> loading ui_b" by (simp add: ui_b_def)
  have a: "approval_type item_b = accept_reject" by (simp add: item_b_def)
  have i: "ai_id item_b = ''item_b''" by (simp add: item_b_def)
  show ?thesis
    using reject_requests_regeneration [OF c, of env_ok] c l a i by simp
qed

text \<open>
  C5. After a refresh that fetched its four answers, the current item is the answer of
  \<^verbatim>\<open>getNext\<close> and the pending list is the full approval list without its first
  element. When \<^verbatim>\<open>getNext\<close> answered the head of that list, the current item followed
  by the pending list is the full list.
\<close>

theorem refresh_current_and_pending:
  "currentItem (loadQueue (Some r) u) = nextRes r
   \<and> pendingItems (loadQueue (Some r) u) = drop 1 (allRes r)
   \<and> (\<forall>x rest. allRes r = x # rest \<and> nextRes r = Some x \<longrightarrow>
         currentItem (loadQueue (Some r) u) = Some x
       \<and> pendingItems (loadQueue (Some r) u) = rest
       \<and> x # pendingItems (loadQueue (Some r) u) = allRes r)"
  by (auto simp: loadQueue_def Let_def split: option.splits)

theorem refresh_current_and_pending_witness:
  "allRes fetched_ab = item_a # [item_b] \<and> nextRes fetched_ab = Some item_a
   \<and> currentItem (loadQueue (Some fetched_ab) ui_empty) = Some item_a
   \<and> pendingItems (loadQueue (Some fetched_ab) ui_empty) = [item_b]"
proof -
  have a: "allRes fetched_ab = item_a # [item_b]" by (simp add: fetched_ab_def)
  have n: "nextRes fetched_ab = Some item_a" by (simp add: fetched_ab_def)
  from refresh_current_and_pending [of fetched_ab ui_empty] a n
  show ?thesis by blast
qed

text \<open>
  C8. Without a current item, the main area shows the completion screen exactly when there
  is a status with \<open>total_assets > 0\<close>, \<open>completed_assets + failed_assets \<ge> total_assets\<close>
  and no generating, pending or awaiting item. With \<open>currently_generating > 0\<close> it shows
  the generating screen. The numbers on the screens are fields of the status held, and
  after a refresh with no next item the screen is computed from the status just fetched.
\<close>

theorem empty_state_view:
  assumes "currentItem u = None"
  shows "((\<exists>c f. mainView u = EmptyState (AllDoneView c f)) \<longleftrightarrow>
           (\<exists>s. status u = Some s \<and> total_assets s > 0
              \<and> completed_assets s + failed_assets s \<ge> total_assets s
              \<and> currently_generating s = 0 \<and> pending s = 0 \<and> awaiting_approval s = 0))
       \<and> (\<forall>s. status u = Some s \<and> currently_generating s > 0 \<longrightarrow>
             mainView u = EmptyState (GeneratingView (currently_generating s)
               (int (total_assets s) - int (completed_assets s + failed_assets s))))
       \<and> (\<forall>s c f. status u = Some s \<and> mainView u = EmptyState (AllDoneView c f) \<longrightarrow>
             c = completed_assets s \<and> f = failed_assets s)
       \<and> (\<forall>r v. nextRes r = None \<longrightarrow>
             mainView (loadQueue (Some r) v) = EmptyState (emptyView (Some (statusRes r))))"
proof (intro conjI)
  show "(\<exists>c f. mainView u = EmptyState (AllDoneView c f)) \<longleftrightarrow>
           (\<exists>s. status u = Some s \<and> total_assets s > 0
              \<and> completed_assets s + failed_assets s \<ge> total_assets s
              \<and> currently_generating s = 0 \<and> pending s = 0 \<and> awaiting_approval s = 0)"
    using assms
    by (auto simp: mainView_def emptyView_def count_of_def Let_def split: option.splits)
  show "\<forall>s. status u = Some s \<and> currently_generating s > 0 \<longrightarrow>
             mainView u = EmptyState (GeneratingView (currently_generating s)
               (int (total_assets s) - int (completed_assets s + failed_assets s)))"
    using assms by (simp add: mainView_def emptyView_def count_of_def Let_def)
  show "\<forall>s c f. status u = Some s \<and> mainView u = EmptyState (AllDoneView c f) \<longrightarrow>
             c = completed_assets s \<and> f = failed_assets s"
    using assms
    by (auto simp: mainView_def emptyView_def count_of_def Let_def split: if_splits)
  show "\<forall>r v. nextRes r = None \<longrightarrow>
             mainView (loadQueue (Some r) v) = EmptyState (emptyView (Some (statusRes r)))"
    by (simp add: mainView_def loadQueue_def Let_def)
qed

theorem empty_state_view_witness:
  "currentItem (loadQueue (Some fetched_done) ui_a) = None
   \<and> mainView (loadQueue (Some fetched_done) ui_a) = EmptyState (AllDoneView 1 1)
   \<and> mainView (ui_empty\<lparr>status := Some status_busy\<rparr>) = EmptyState (GeneratingView 1 2)"
proof -
  let ?u = "loadQueue (Some fetched_done) ui_a"
  let ?v = "ui_empty\<lparr>status := Some status_busy\<rparr>"
  have n: "nextRes fetched_done = None" by (simp add: fetched_done_def)
  have c: "currentItem ?u = None" by (simp add: loadQueue_def fetched_done_def Let_def)
  have d: "currentItem ?v = None" by (simp add: ui_empty_def)
  have "mainView ?u = EmptyState (emptyView (Some (statusRes fetched_done)))"
    using empty_state_view [OF c] n by blast
  then have a: "mainView ?u = EmptyState (AllDoneView 1 1)"
    by (simp add: fetched_done_def status_done_def emptyView_def count_of_def Let_def)
  have "status ?v = Some status_busy \<and> currently_generating status_busy > 0"
    by (simp add: status_busy_def)
  with empty_state_view [OF d]
  have "mainView ?v = EmptyState (GeneratingView (currently_generating status_busy)
               (int (total_assets status_busy) - int (completed_assets status_busy + failed_assets status_busy)))"
    by blast
  then have b: "mainView ?v = EmptyState (GeneratingView 1 2)"
    by (simp add: status_busy_def)
  show ?thesis using c a b by simp
qed

subsection \<open>Interactive queue: the selection after a refresh\<close>

text \<open>
  C9, as stated, fails: a refresh whose next item is a choose-one item with an empty
  options list shows that item with no selection.
\<close>

theorem choose_one_without_selection:
  "\<not> (\<forall>r u item. nextRes r = Some item \<and> approval_type item = choose_one \<longrightarrow>
         currentItem (loadQueue (Some r) u) = Some item
       \<and> selectedOption (loadQueue (Some r) u) \<noteq> None)"
proof
  assume a: "\<forall>r u item. nextRes r = Some item \<and> approval_type item = choose_one \<longrightarrow>
         currentItem (loadQueue (Some r) u) = Some item
       \<and> selectedOption (loadQueue (Some r) u) \<noteq> None"
  let ?r = "fetched_ab\<lparr>nextRes := Some item_none, allRes := [item_none]\<rparr>"
  have "nextRes ?r = Some item_none \<and> approval_type item_none = choose_one"
    by (simp add: item_none_def item_a_def)
  with a have "selectedOption (loadQueue (Some ?r) ui_a) \<noteq> None"
    by blast
  moreover have "selectedOption (loadQueue (Some ?r) ui_a) = None"
    by (simp add: loadQueue_def Let_def item_none_def item_a_def)
  ultimately show False by simp
qed

text \<open>
  C9, amended. After a refresh that yields a current item: a choose-one item with at
  least one option has its first option selected, and any other item has no selection. So
  a choose-one item that has an option is never shown, after a refresh, without a
  selection.
\<close>

theorem refresh_preselects_first_option:
  assumes "nextRes r = Some item"
  shows "currentItem (loadQueue (Some r) u) = Some item
       \<and> (approval_type item = choose_one \<and> options item \<noteq> [] \<longrightarrow>
            selectedOption (loadQueue (Some r) u) = Some (opt_id (options item ! 0)))
       \<and> (approval_type item \<noteq> choose_one \<or> options item = [] \<longrightarrow>
            selectedOption (loadQueue (Some r) u) = None)"
  using assms by (simp add: loadQueue_def Let_def)

theorem refresh_preselects_first_option_witness:
  "nextRes fetched_ab = Some item_a
   \<and> approval_type item_a = choose_one \<and> options item_a \<noteq> []
   \<and> currentItem (loadQueue (Some fetched_ab) ui_b) = Some item_a
   \<and> selectedOption (loadQueue (Some fetched_ab) ui_b) = Some ''opt1''"
proof -
  have n: "nextRes fetched_ab = Some item_a" by (simp add: fetched_ab_def)
  have c: "approval_type item_a = choose_one \<and> options item_a \<noteq> []"
    by (simp add: item_a_def)
  have o: "opt_id (options item_a ! 0) = ''opt1''" by (simp add: item_a_def opt_a_def)
  from refresh_preselects_first_option [OF n, of ui_b] c o
  have "currentItem (loadQueue (Some fetched_ab) ui_b) = Some item_a
      \<and> selectedOption (loadQueue (Some fetched_ab) ui_b) = Some ''opt1''"
    by simp
  with n c show ?thesis by simp
qed

subsection \<open>Classic approval queue: the reject request\<close>

text \<open>
  C7. A reject of the classic queue sends one request with \<open>approved = false\<close> and the
  given \<open>regenerate\<close>. Its \<open>modified_prompt\<close> is the typed prompt when regeneration is asked
  for and the prompt is not empty, and is absent otherwise; so a plain reject carries none.
  Once the request has succeeded, the prompt input is empty and no variation is selected.
\<close>

theorem classic_reject_request:
  assumes "currentIndex st < length queue"
  shows "fst (ApprovalQueue_handleReject queue rg ok st) =
           [\<lparr>sa_asset_id = qi_asset_id (queue ! currentIndex st),
             sa_step_id = qi_step_id (queue ! currentIndex st),
             sa_approved = False, sa_selected_index = None, sa_regenerate = Some rg,
             sa_modified_prompt =
               (if rg \<and> modifiedPrompt st \<noteq> [] then Some (modifiedPrompt st) else None)\<rparr>]
       \<and> (\<forall>req \<in> set (fst (ApprovalQueue_handleReject queue rg ok st)).
            (sa_modified_prompt req \<noteq> None \<longleftrightarrow> rg \<and> modifiedPrompt st \<noteq> []))
       \<and> (ok \<longrightarrow> modifiedPrompt (snd (ApprovalQueue_handleReject queue rg ok st)) = []
              \<and> selectedVariation (snd (ApprovalQueue_handleReject queue rg ok st)) = None)"
  using assms
  by (simp add: ApprovalQueue_handleReject_def Let_def or_undefined_def truthy_def)

theorem classic_reject_request_witness:
  "currentIndex aq_typed < length [queue_item_a]
   \<and> map sa_modified_prompt (fst (ApprovalQueue_handleReject [queue_item_a] True True aq_typed))
       = [Some ''more red'']
   \<and> map sa_modified_prompt (fst (ApprovalQueue_handleReject [queue_item_a] False True aq_typed))
       = [None]
   \<and> modifiedPrompt (snd (ApprovalQueue_handleReject [queue_item_a] False True aq_typed)) = []
   \<and> selectedVariation (snd (ApprovalQueue_handleReject [queue_item_a] False True aq_typed)) = None"
proof -
  have h: "currentIndex aq_typed < length [queue_item_a]" by (simp add: aq_typed_def)
  have m: "modifiedPrompt aq_typed = ''more red''" by (simp add: aq_typed_def)
  show ?thesis
    using classic_reject_request [OF h, of True True] classic_reject_request [OF h, of False True] h m
    by simp
qed

subsection \<open>Pipeline editors\<close>

lemma map_update_distinct:
  assumes "distinct (map ps_id prev)" and "i < length prev" and "ps_id (prev ! i) = sid"
  shows "map (\<lambda>s. if ps_id s = sid then f s else s) prev = prev[i := f (prev ! i)]"
proof (rule nth_equalityI)
  show "length (map (\<lambda>s. if ps_id s = sid then f s else s) prev) = length (prev[i := f (prev ! i)])"
    by simp
next
  fix j
  assume "j < length (map (\<lambda>s. if ps_id s = sid then f s else s) prev)"
  then have j: "j < length prev" by simp
  show "map (\<lambda>s. if ps_id s = sid then f s else s) prev ! j = prev[i := f (prev ! i)] ! j"
  proof (cases "j = i")
    case True
    then show ?thesis using assms by simp
  next
    case False
    have "ps_id (prev ! j) \<noteq> ps_id (prev ! i)"
      using nth_eq_iff_index_eq [OF assms(1), of j i] j assms(2) False by simp
    then have "ps_id (prev ! j) \<noteq> sid"
      using assms(3) by simp
    then show ?thesis using j False by simp
  qed
qed

text \<open>
  C10. A change of the approval mode of the step \<open>sid\<close> keeps the length and the order
  of the pipeline, leaves every step with another id as it is, and in a step with that id
  changes the \<open>variations\<close> field only: to \<open>max 2\<close> of its value for \<open>choose\<close>, to 1
  otherwise. With distinct ids the result is the pipeline with that one step replaced. The
  mode shown for a step is \<open>choose\<close> exactly when its \<open>variations\<close> exceed 1.
\<close>

theorem approval_mode_change_frame:
  "length (approvalModeChange sid v prev) = length prev
   \<and> (\<forall>i < length prev.
        (ps_id (prev ! i) \<noteq> sid \<longrightarrow> approvalModeChange sid v prev ! i = prev ! i)
      \<and> (ps_id (prev ! i) = sid \<longrightarrow>
           approvalModeChange sid v prev ! i =
             (prev ! i)\<lparr>variations := (if v = ''choose'' then max 2 (variations (prev ! i)) else 1)\<rparr>)
      \<and> ps_id (approvalModeChange sid v prev ! i) = ps_id (prev ! i)
      \<and> ps_type (approvalModeChange sid v prev ! i) = ps_type (prev ! i)
      \<and> provider (approvalModeChange sid v prev ! i) = provider (prev ! i)
      \<and> prompt_template (approvalModeChange sid v prev ! i) = prompt_template (prev ! i)
      \<and> requires_approval (approvalModeChange sid v prev ! i) = requires_approval (prev ! i)
      \<and> parallel_with (approvalModeChange sid v prev ! i) = parallel_with (prev ! i)
      \<and> config (approvalModeChange sid v prev ! i) = config (prev ! i)
      \<and> (distinct (map ps_id prev) \<and> ps_id (prev ! i) = sid \<longrightarrow>
           approvalModeChange sid v prev =
             prev[i := (prev ! i)\<lparr>variations :=
                        (if v = ''choose'' then max 2 (variations (prev ! i)) else 1)\<rparr>]))
   \<and> (approvalModeValue step = ''choose'' \<longleftrightarrow> variations step > 1)"
proof (intro conjI allI impI)
  show "length (approvalModeChange sid v prev) = length prev"
    by (simp add: approvalModeChange_def)
next
  fix i
  assume i: "i < length prev"
  show "distinct (map ps_id prev) \<and> ps_id (prev ! i) = sid \<Longrightarrow>
           approvalModeChange sid v prev =
             prev[i := (prev ! i)\<lparr>variations :=
                        (if v = ''choose'' then max 2 (variations (prev ! i)) else 1)\<rparr>]"
    using i
      map_update_distinct [of prev i sid
        "\<lambda>s. s\<lparr>variations := (if v = ''choose'' then max 2 (variations s) else 1)\<rparr>"]
    by (simp add: approvalModeChange_def)
next
  show "approvalModeValue step = ''choose'' \<longleftrightarrow> variations step > 1"
    by (simp add: approvalModeValue_def)
qed (simp_all add: approvalModeChange_def)

theorem approval_mode_change_frame_witness:
  "(0::nat) < length [step_art, step_name_gen]
   \<and> distinct (map ps_id [step_art, step_name_gen]) \<and> ps_id ([step_art, step_name_gen] ! 0) = ''portrait''
   \<and> ps_id ([step_art, step_name_gen] ! 1) \<noteq> ''portrait''
   \<and> approvalModeChange ''portrait'' ''choose'' [step_art, step_name_gen] =
       [step_art\<lparr>variations := 2\<rparr>, step_name_gen]
   \<and> approvalModeChange ''name'' ''accept'' [step_art, step_name_gen] ! 1 =
       step_name_gen\<lparr>variations := 1\<rparr>
   \<and> approvalModeValue step_name_gen = ''choose''"
proof -
  let ?p = "[step_art, step_name_gen]"
  have l: "(0::nat) < length ?p" "(1::nat) < length ?p" by simp_all
  have d: "distinct (map ps_id ?p)" by (simp add: step_art_def step_name_gen_def)
  have i0: "ps_id (?p ! 0) = ''portrait''" by (simp add: step_art_def)
  have i1: "ps_id (?p ! 1) = ''name''" by (simp add: step_name_gen_def)
  have v0: "variations (?p ! 0) = 1" by (simp add: step_art_def)
  have v1: "variations step_name_gen > 1" by (simp add: step_name_gen_def)
  note t = approval_mode_change_frame [of "''portrait''" "''choose''" ?p step_name_gen]
  note t' = approval_mode_change_frame [of "''name''" "''accept''" ?p step_name_gen]
  from t l(1) d i0 have a: "approvalModeChange ''portrait'' ''choose'' ?p =
      ?p[0 := (?p ! 0)\<lparr>variations := (if ''choose'' = ''choose'' then max 2 (variations (?p ! 0)) else 1)\<rparr>]"
    by blast
  from t' l(2) i1 have b: "approvalModeChange ''name'' ''accept'' ?p ! 1 =
      (?p ! 1)\<lparr>variations := (if ''accept'' = ''choose'' then max 2 (variations (?p ! 1)) else 1)\<rparr>"
    by blast
  from t v1 have c: "approvalModeValue step_name_gen = ''choose''" by blast
  show ?thesis using l d i0 i1 a b c v0 by simp
qed

subsection \<open>Interactive queue: selection and approval\<close>

lemma findIndex_range: "-1 \<le> findIndex p xs \<and> findIndex p xs < int (length xs)"
  by (induction xs) (auto simp: Let_def)

lemma navigateIndex_range:
  assumes "opts \<noteq> []" and "d = 1 \<or> d = -1"
  shows "0 \<le> navigateIndex opts sel d \<and> navigateIndex opts sel d < int (length opts)"
proof -
  have n: "0 < int (length opts)" using assms(1) by simp
  show ?thesis
    using findIndex_range [of "\<lambda>opt. Some (opt_id opt) = sel" opts] n assms(2)
    by (auto simp: navigateIndex_def Let_def)
qed

lemma foldl_digits_ge: "a \<le> foldl (\<lambda>a c. a * 10 + g c) (a::nat) xs"
proof (induction xs arbitrary: a)
  case Nil
  show ?case by simp
next
  case (Cons x xs)
  have "a \<le> a * 10 + g x" by simp
  also have "\<dots> \<le> foldl (\<lambda>a c. a * 10 + g c) (a * 10 + g x) xs" by (rule Cons.IH)
  finally show ?case by simp
qed

lemma numberKey_first:
  assumes "numberKey k"
  shows "\<exists>c cs. k = c # cs \<and> 49 \<le> (of_char c :: nat) \<and> (of_char c :: nat) \<le> 57"
proof (cases k)
  case Nil
  with assms show ?thesis by (simp add: numberKey_def)
next
  case (Cons c cs)
  with assms show ?thesis by (auto simp: numberKey_def split: if_splits)
qed

lemma parse_digits_nonzero:
  assumes "49 \<le> (of_char c :: nat)" and "(of_char c :: nat) \<le> 57"
  shows "\<exists>n. parse_digits 10 (c # cs) = Some n \<and> 1 \<le> n"
proof -
  have d: "digit_val 10 c = Some (of_char c - 48)"
    using assms by (simp add: digit_val_def Let_def)
  let ?rest = "takeWhile (\<lambda>c. digit_val 10 c \<noteq> None) cs"
  have "parse_digits 10 (c # cs) = Some (digits_value 10 (c # ?rest))"
    using d by (simp add: parse_digits_def)
  moreover have "of_char c - 48 \<le> digits_value 10 (c # ?rest)"
    using foldl_digits_ge [of "of_char c - 48" "\<lambda>c. the (digit_val 10 c)" ?rest] d
    by (simp add: digits_value_def)
  ultimately show ?thesis using assms by auto
qed

lemma numberKey_parse:
  assumes "numberKey k"
  shows "\<exists>n. parseInt k = Some n \<and> 1 \<le> n"
proof -
  from numberKey_first [OF assms] obtain c cs
    where k: "k = c # cs" and lo: "49 \<le> (of_char c :: nat)" and hi: "(of_char c :: nat) \<le> 57"
    by blast
  have ws: "\<not> is_ws c" using lo by (auto simp: is_ws_def)
  have m: "c \<noteq> CHR ''-''" "c \<noteq> CHR ''+''" "c \<noteq> CHR ''0''" using lo by auto
  have u: "parse_unsigned (c # cs) = parse_digits 10 (c # cs)"
    using m by (simp add: parse_unsigned_def split: list.splits)
  from parse_digits_nonzero [OF lo hi, of cs] obtain n
    where n: "parse_digits 10 (c # cs) = Some n" "1 \<le> n" by blast
  have "parseInt k = Some (int n)"
    using k ws m u n by (simp add: parseInt_def)
  with n show ?thesis by simp
qed

lemma sel_valid_loadQueue: "sel_valid u \<Longrightarrow> sel_valid (loadQueue res u)"
  by (auto simp: sel_valid_def loadQueue_def Let_def split: option.splits)

lemma sel_valid_after_call: "sel_valid u \<Longrightarrow> sel_valid (after_call e u)"
  using sel_valid_loadQueue [of u "refresh e"]
  by (simp add: after_call_def sel_valid_def split: option.splits)

lemma sel_valid_select:
  "currentItem u = Some item \<Longrightarrow> i < length (options item) \<Longrightarrow>
   sel_valid (u\<lparr>selectedOption := Some (opt_id (options item ! i))\<rparr>)"
  by (simp add: sel_valid_def)

lemma sel_valid_navigate:
  assumes "d = 1 \<or> d = -1" and "sel_valid u"
  shows "sel_valid (navigateOption d u)"
proof (cases "currentItem u")
  case None
  then show ?thesis by (simp add: navigateOption_def sel_valid_def)
next
  case (Some item)
  show ?thesis
  proof (cases "options item = []")
    case True
    with Some assms(2) show ?thesis by (simp add: navigateOption_def)
  next
    case False
    from navigateIndex_range [OF False assms(1), of "selectedOption u"]
    have "nat (navigateIndex (options item) (selectedOption u) d) < length (options item)"
      by linarith
    from sel_valid_select [OF Some this] Some False show ?thesis
      by (simp add: navigateOption_def)
  qed
qed

lemma sel_valid_handlers:
  assumes "sel_valid u"
  shows "sel_valid (snd (handleApprove e u))" and "sel_valid (snd (handleReject e u))"
    and "sel_valid (snd (handleRegenerate e u))" and "sel_valid (snd (handleSkip e u))"
  using assms sel_valid_after_call [OF assms, of e]
  by (simp_all add: handleApprove_def handleReject_def handleRegenerate_def handleSkip_def
      split: option.splits)

lemma sel_valid_keyDown:
  assumes "sel_valid u"
  shows "sel_valid (snd (handleKeyDown k e u))"
proof (cases "currentItem u")
  case None
  with assms show ?thesis by (simp add: handleKeyDown_def)
next
  case (Some item)
  show ?thesis
  proof (cases "loading u")
    case True
    with Some assms show ?thesis by (simp add: handleKeyDown_def)
  next
    case False
    show ?thesis
    proof (cases "numberKey k")
      case True
      from numberKey_parse [OF True] obtain n where n: "parseInt k = Some n" "1 \<le> n" by blast
      show ?thesis
      proof (cases "n - 1 < int (length (options item))")
        case True
        with n have "nat (n - 1) < length (options item)" by simp
        from sel_valid_select [OF Some this] Some False \<open>numberKey k\<close> n True
        show ?thesis by (simp add: handleKeyDown_def)
      next
        case f: False
        with Some False \<open>numberKey k\<close> n assms show ?thesis by (simp add: handleKeyDown_def)
      qed
    next
      case nk: False
      with Some False assms sel_valid_handlers [OF assms, of e]
        sel_valid_navigate [of 1 u] sel_valid_navigate [of "-1" u]
      show ?thesis by (simp add: handleKeyDown_def Let_def)
    qed
  qed
qed

lemma sel_valid_dispatch:
  assumes "sel_valid u"
  shows "sel_valid (snd (dispatch ev e u))"
proof (cases ev)
  case (KeyDown k)
  with sel_valid_keyDown [OF assms] show ?thesis by (simp add: dispatch_def)
next
  case (ClickOption i)
  with assms sel_valid_select [of u _ i] show ?thesis
    by (auto simp: dispatch_def split: option.splits)
next
  case (WsStatus s)
  with assms show ?thesis by (simp add: dispatch_def sel_valid_def split: option.splits)
next
  case (WsProgress a b c)
  with assms show ?thesis by (simp add: dispatch_def sel_valid_def split: option.splits)
qed (use assms sel_valid_handlers [OF assms, of e] sel_valid_loadQueue [OF assms] in
      \<open>auto simp: dispatch_def handlePauseResume_def handleStop_def split: option.splits\<close>)

lemma sel_valid_run: "sel_valid u \<Longrightarrow> sel_valid (ui_run evs u)"
proof (induction evs arbitrary: u)
  case Nil
  then show ?case by (simp add: ui_run_def)
next
  case (Cons x evs)
  obtain ev e where x: "x = (ev, e)" by (cases x)
  have "ui_run (x # evs) u = ui_run evs (snd (dispatch ev e u))"
    by (simp add: ui_run_def x)
  with Cons.IH [OF sel_valid_dispatch [OF Cons.prems]] show ?case by simp
qed

lemma digitKey_numberKey:
  "numberKey (digitKey 1)" "numberKey (digitKey 2)" "numberKey (digitKey 3)"
  "numberKey (digitKey 4)" "numberKey (digitKey 5)" "numberKey (digitKey 6)"
  "numberKey (digitKey 7)" "numberKey (digitKey 8)" "numberKey (digitKey 9)"
  "numberKey (digitKey (Suc 0))"
  by code_simp+

lemma digitKey_parseInt:
  "parseInt (digitKey 1) = Some 1" "parseInt (digitKey 2) = Some 2"
  "parseInt (digitKey 3) = Some 3" "parseInt (digitKey 4) = Some 4"
  "parseInt (digitKey 5) = Some 5" "parseInt (digitKey 6) = Some 6"
  "parseInt (digitKey 7) = Some 7" "parseInt (digitKey 8) = Some 8"
  "parseInt (digitKey 9) = Some 9" "parseInt (digitKey (Suc 0)) = Some 1"
  by code_simp+

lemma digitKey_parse:
  assumes "k \<in> {1..9}"
  shows "numberKey (digitKey k) \<and> parseInt (digitKey k) = Some (int k)"
proof -
  from assms have "k = 1 \<or> k = 2 \<or> k = 3 \<or> k = 4 \<or> k = 5 \<or> k = 6 \<or> k = 7 \<or> k = 8 \<or> k = 9"
    by auto
  then show ?thesis
    by (elim disjE) (simp_all add: digitKey_numberKey digitKey_parseInt)
qed

lemma lower_keys:
  "toLowerCase ''y'' = ''y''" "toLowerCase ''Y'' = ''y''" "toLowerCase ''Enter'' = ''enter''"
  "toLowerCase ''ArrowLeft'' = ''arrowleft''" "toLowerCase ''ArrowRight'' = ''arrowright''"
  by code_simp+

lemma not_numberKey:
  "\<not> numberKey ''y''" "\<not> numberKey ''Y''" "\<not> numberKey ''Enter''"
  "\<not> numberKey ''ArrowLeft''" "\<not> numberKey ''ArrowRight''"
  by (simp_all add: numberKey_def)

lemma arrow_keys:
  assumes "currentItem u = Some item" and "\<not> loading u"
  shows "handleKeyDown ''ArrowRight'' e u = ([], navigateOption 1 u)"
    and "handleKeyDown ''ArrowLeft'' e u = ([], navigateOption (-1) u)"
  using assms by (simp_all add: handleKeyDown_def not_numberKey lower_keys)

lemma navigateIndex_wrap:
  assumes "opts \<noteq> []"
    and "c = (if truthy sel then findIndex (\<lambda>opt. Some (opt_id opt) = sel) opts else -1)"
  shows "navigateIndex opts sel 1 = (if c + 1 = int (length opts) then 0 else c + 1)"
    and "navigateIndex opts sel (-1) = (if c \<le> 0 then int (length opts) - 1 else c - 1)"
proof -
  have n: "0 < int (length opts)" using assms(1) by simp
  have r: "-1 \<le> c \<and> c < int (length opts)"
    using findIndex_range [of "\<lambda>opt. Some (opt_id opt) = sel" opts] n assms(2) by simp
  have 1: "navigateIndex opts sel 1 =
      (let newIndex = c + 1;
           newIndex = (if newIndex < 0 then int (length opts) - 1 else newIndex);
           newIndex = (if newIndex \<ge> int (length opts) then 0 else newIndex) in newIndex)"
    unfolding navigateIndex_def assms(2) by (simp add: Let_def)
  have 2: "navigateIndex opts sel (-1) =
      (let newIndex = c + (-1);
           newIndex = (if newIndex < 0 then int (length opts) - 1 else newIndex);
           newIndex = (if newIndex \<ge> int (length opts) then 0 else newIndex) in newIndex)"
    unfolding navigateIndex_def assms(2) by (simp add: Let_def)
  show "navigateIndex opts sel 1 = (if c + 1 = int (length opts) then 0 else c + 1)"
    using r n unfolding 1 Let_def by auto
  show "navigateIndex opts sel (-1) = (if c \<le> 0 then int (length opts) - 1 else c - 1)"
    using r n unfolding 2 Let_def by auto
qed

lemma digit_key_selects:
  assumes "currentItem u = Some item" and "\<not> loading u" and "k \<in> {1..9}"
  shows "snd (handleKeyDown (digitKey k) e u) =
           (if k - 1 < length (options item)
            then u\<lparr>selectedOption := Some (opt_id (options item ! (k - 1)))\<rparr> else u)"
proof -
  from digitKey_parse [OF assms(3)] have nk: "numberKey (digitKey k)"
    and p: "parseInt (digitKey k) = Some (int k)" by simp_all
  have h: "handleKeyDown (digitKey k) e u =
          (if int k - 1 < int (length (options item))
           then ([], u\<lparr>selectedOption := Some (opt_id (options item ! nat (int k - 1)))\<rparr>)
           else ([], u))"
    unfolding handleKeyDown_def by (simp only: assms(1,2) nk p option.case if_True if_False option.map)
  from assms(3) have a: "nat (int k - 1) = k - 1" by auto
  from assms(3) have b: "(int k - 1 < int (length (options item))) = (k - 1 < length (options item))"
    by auto
  show ?thesis unfolding h a b by simp
qed

text \<open>
  C3. With a current item that has options, and nothing loading: the key of digit \<open>k\<close>
  selects the option of index \<open>k - 1\<close> when \<open>k - 1\<close> is below the number of options, and
  changes nothing otherwise; the arrow keys select the option at an index from \<open>0\<close> up to
  the number of options, going from the last to the first and from the first to the last.
  Every event keeps the selection among the ids of the current item's options, and so does
  every run of the page from its initial state.
\<close>

theorem selection_always_valid:
  assumes "currentItem u = Some item" and "options item \<noteq> []" and "\<not> loading u"
  shows "(\<forall>k \<in> {1..9}.
            snd (handleKeyDown (digitKey k) e u) =
              (if k - 1 < length (options item)
               then u\<lparr>selectedOption := Some (opt_id (options item ! (k - 1)))\<rparr> else u))
       \<and> (\<forall>d \<in> {1, -1}.
            0 \<le> navigateIndex (options item) (selectedOption u) d
          \<and> navigateIndex (options item) (selectedOption u) d < int (length (options item))
          \<and> snd (handleKeyDown (if d = 1 then ''ArrowRight'' else ''ArrowLeft'') e u) =
              u\<lparr>selectedOption := Some (opt_id (options item !
                   nat (navigateIndex (options item) (selectedOption u) d)))\<rparr>)
       \<and> (\<forall>c. c = (if truthy (selectedOption u)
                    then findIndex (\<lambda>opt. Some (opt_id opt) = selectedOption u) (options item)
                    else -1) \<longrightarrow>
            navigateIndex (options item) (selectedOption u) 1 =
              (if c + 1 = int (length (options item)) then 0 else c + 1)
          \<and> navigateIndex (options item) (selectedOption u) (-1) =
              (if c \<le> 0 then int (length (options item)) - 1 else c - 1))
       \<and> (\<forall>ev e'. sel_valid u \<longrightarrow> sel_valid (snd (dispatch ev e' u)))
       \<and> (\<forall>evs. sel_valid (ui_run evs initial_ui))"
proof (intro conjI ballI allI impI)
  fix k :: nat
  assume "k \<in> {1..9}"
  with assms show "snd (handleKeyDown (digitKey k) e u) =
              (if k - 1 < length (options item)
               then u\<lparr>selectedOption := Some (opt_id (options item ! (k - 1)))\<rparr> else u)"
    by (intro digit_key_selects)
next
  fix d :: int
  assume d: "d \<in> {1, -1}"
  then have d': "d = 1 \<or> d = -1" by simp
  from navigateIndex_range [OF assms(2) d', of "selectedOption u"]
  show "0 \<le> navigateIndex (options item) (selectedOption u) d"
    and "navigateIndex (options item) (selectedOption u) d < int (length (options item))"
    by simp_all
  have n: "navigateOption d u = u\<lparr>selectedOption := Some (opt_id (options item !
                   nat (navigateIndex (options item) (selectedOption u) d)))\<rparr>"
    using assms(1,2) by (simp add: navigateOption_def)
  from d' show "snd (handleKeyDown (if d = 1 then ''ArrowRight'' else ''ArrowLeft'') e u) =
              u\<lparr>selectedOption := Some (opt_id (options item !
                   nat (navigateIndex (options item) (selectedOption u) d)))\<rparr>"
  proof
    assume "d = 1"
    with n arrow_keys(1) [OF assms(1,3), of e] show ?thesis by simp
  next
    assume "d = -1"
    with n arrow_keys(2) [OF assms(1,3), of e] show ?thesis by simp
  qed
next
  fix c
  assume c: "c = (if truthy (selectedOption u)
                    then findIndex (\<lambda>opt. Some (opt_id opt) = selectedOption u) (options item)
                    else -1)"
  from navigateIndex_wrap [OF assms(2) c]
  show "navigateIndex (options item) (selectedOption u) 1 =
              (if c + 1 = int (length (options item)) then 0 else c + 1)"
    and "navigateIndex (options item) (selectedOption u) (-1) =
              (if c \<le> 0 then int (length (options item)) - 1 else c - 1)"
    by simp_all
next
  fix ev e'
  assume "sel_valid u"
  then show "sel_valid (snd (dispatch ev e' u))" by (rule sel_valid_dispatch)
next
  fix evs
  have "sel_valid initial_ui" by (simp add: sel_valid_def initial_ui_def)
  then show "sel_valid (ui_run evs initial_ui)" by (rule sel_valid_run)
qed

theorem selection_always_valid_witness:
  "currentItem ui_a = Some item_a \<and> options item_a \<noteq> [] \<and> \<not> loading ui_a
   \<and> selectedOption (snd (handleKeyDown (digitKey 2) env_ok ui_a)) = Some ''opt2''
   \<and> snd (handleKeyDown (digitKey 3) env_ok ui_a) = ui_a
   \<and> navigateIndex (options item_a) (selectedOption ui_a) (-1) = 1
   \<and> selectedOption (snd (handleKeyDown ''ArrowLeft'' env_ok ui_a)) = Some ''opt2''
   \<and> sel_valid ui_a
   \<and> sel_valid (snd (dispatch (KeyDown ''ArrowLeft'') env_ok ui_a))"
proof -
  have c: "currentItem ui_a = Some item_a" by (simp add: ui_a_def)
  have o: "options item_a \<noteq> []" by (simp add: item_a_def)
  have l: "\<not> loading ui_a" by (simp add: ui_a_def)
  have os: "options item_a = [opt_a, opt_b]" by (simp add: item_a_def)
  have ids: "opt_id opt_a = ''opt1''" "opt_id opt_b = ''opt2''"
    by (simp_all add: opt_a_def opt_b_def)
  have s: "selectedOption ui_a = Some ''opt1''" by (simp add: ui_a_def)
  have v: "sel_valid ui_a" by (simp add: sel_valid_def c s os ids)
  note t = selection_always_valid [OF c o l, of env_ok]
  from t have k: "\<forall>k \<in> {1..9}.
            snd (handleKeyDown (digitKey k) env_ok ui_a) =
              (if k - 1 < length (options item_a)
               then ui_a\<lparr>selectedOption := Some (opt_id (options item_a ! (k - 1)))\<rparr> else ui_a)"
    by blast
  have k2: "selectedOption (snd (handleKeyDown (digitKey 2) env_ok ui_a)) = Some ''opt2''"
    using k [rule_format, of 2] by (simp add: os ids)
  have k3: "snd (handleKeyDown (digitKey 3) env_ok ui_a) = ui_a"
    using k [rule_format, of 3] by (simp add: os)
  from t have n: "\<forall>d \<in> {1, -1}.
            0 \<le> navigateIndex (options item_a) (selectedOption ui_a) d
          \<and> navigateIndex (options item_a) (selectedOption ui_a) d < int (length (options item_a))
          \<and> snd (handleKeyDown (if d = 1 then ''ArrowRight'' else ''ArrowLeft'') env_ok ui_a) =
              ui_a\<lparr>selectedOption := Some (opt_id (options item_a !
                   nat (navigateIndex (options item_a) (selectedOption ui_a) d)))\<rparr>"
    by blast
  from t have w: "\<forall>c. c = (if truthy (selectedOption ui_a)
                    then findIndex (\<lambda>opt. Some (opt_id opt) = selectedOption ui_a) (options item_a)
                    else -1) \<longrightarrow>
            navigateIndex (options item_a) (selectedOption ui_a) 1 =
              (if c + 1 = int (length (options item_a)) then 0 else c + 1)
          \<and> navigateIndex (options item_a) (selectedOption ui_a) (-1) =
              (if c \<le> 0 then int (length (options item_a)) - 1 else c - 1)"
    by blast
  have f: "(if truthy (selectedOption ui_a)
                    then findIndex (\<lambda>opt. Some (opt_id opt) = selectedOption ui_a) (options item_a)
                    else -1) = 0"
    by (simp add: s os ids truthy_def)
  have n1: "navigateIndex (options item_a) (selectedOption ui_a) (-1) = 1"
    using w [rule_format, of 0] f by (simp add: os)
  have a: "selectedOption (snd (handleKeyDown ''ArrowLeft'' env_ok ui_a)) = Some ''opt2''"
    using n [rule_format, of "-1"] n1 by (simp add: os ids)
  from t v have d: "sel_valid (snd (dispatch (KeyDown ''ArrowLeft'') env_ok ui_a))"
    by blast
  show ?thesis using c o l k2 k3 n1 a v d by simp
qed

lemma approve_keys:
  assumes "currentItem u = Some item" and "\<not> loading u"
  shows "handleKeyDown ''y'' e u =
           (if truthy (selectedOption u) \<or> approval_type item = accept_reject
            then handleApprove e u else ([], u))"
    and "handleKeyDown ''Y'' e u =
           (if truthy (selectedOption u) \<or> approval_type item = accept_reject
            then handleApprove e u else ([], u))"
    and "handleKeyDown ''Enter'' e u =
           (if truthy (selectedOption u) \<or> approval_type item = accept_reject
            then handleApprove e u else ([], u))"
  using assms by (simp_all add: handleKeyDown_def not_numberKey lower_keys)

lemma keyDown_loading: "loading u \<Longrightarrow> handleKeyDown k e u = ([], u)"
  by (simp add: handleKeyDown_def split: option.splits)

lemma handleApprove_call:
  "currentItem u = Some item \<Longrightarrow>
   fst (handleApprove e u) =
     [SubmitInteractiveApproval
        \<lparr>item_id = ai_id item, approved = True,
         selected_option_id = or_undefined (selectedOption u), regenerate = None\<rparr>]"
  by (simp add: handleApprove_def)

lemma other_calls:
  "currentItem u = Some item \<Longrightarrow>
   SubmitInteractiveApproval d \<in> set (fst (handleReject e u)) \<Longrightarrow> \<not> approved d"
  "SubmitInteractiveApproval d \<notin> set (fst (handleRegenerate e u))"
  "SubmitInteractiveApproval d \<notin> set (fst (handleSkip e u))"
  by (auto simp: handleReject_def handleRegenerate_def handleSkip_def split: option.splits)

lemma keyDown_approval:
  assumes "currentItem u = Some item" and "approval_type item = choose_one"
    and "SubmitInteractiveApproval d \<in> set (fst (handleKeyDown k e u))" and "approved d"
  shows "truthy (selectedOption u) \<and> selected_option_id d = selectedOption u
         \<and> item_id d = ai_id item"
proof (cases "loading u")
  case True
  with assms(3) keyDown_loading [OF True, of k e] show ?thesis by simp
next
  case False
  show ?thesis
  proof (cases "numberKey k")
    case True
    with assms(1,3) False show ?thesis
      by (simp add: handleKeyDown_def split: option.splits if_splits)
  next
    case nk: False
    have "handleKeyDown k e u =
       (let key = toLowerCase k in
             if key = ''y'' \<or> key = ''enter'' then
               (if truthy (selectedOption u) \<or> approval_type item = accept_reject
                then handleApprove e u else ([], u))
             else if key = ''n'' then handleReject e u
             else if key = ''r'' then handleRegenerate e u
             else if key = ''s'' then handleSkip e u
             else if key = ''arrowleft'' then ([], navigateOption (-1) u)
             else if key = ''arrowright'' then ([], navigateOption 1 u)
             else ([], u))"
      unfolding handleKeyDown_def by (simp only: assms(1) False nk option.case if_False)
    with assms(3) have
      "truthy (selectedOption u) \<and> SubmitInteractiveApproval d \<in> set (fst (handleApprove e u))
       \<or> SubmitInteractiveApproval d \<in> set (fst (handleReject e u))
       \<or> SubmitInteractiveApproval d \<in> set (fst (handleRegenerate e u))
       \<or> SubmitInteractiveApproval d \<in> set (fst (handleSkip e u))"
      using assms(2) by (simp add: Let_def split: if_splits)
    with other_calls(1) [OF assms(1), of d e] other_calls(2,3) [of d e u] assms(4)
    have t: "truthy (selectedOption u)"
      and a: "SubmitInteractiveApproval d \<in> set (fst (handleApprove e u))"
      by blast+
    from a handleApprove_call [OF assms(1), of e] t show ?thesis
      by (auto simp: or_undefined_def)
  qed
qed

text \<open>
  C2. With a choose-one item shown: the Select button is disabled exactly when no option
  is selected or a request is in flight; without a selection, neither the button nor the
  Y and Enter keys send anything; with a selection and nothing in flight, Enter sends the
  approval with that option. Whatever the event, a decision that the page sends with
  \<open>approved = true\<close> carries the selected option, which is set, and the item's id.
\<close>

theorem choose_one_approval_carries_option:
  assumes "currentItem u = Some item" and "approval_type item = choose_one"
  shows "approveDisabled u = (\<not> truthy (selectedOption u) \<or> loading u)
       \<and> (\<not> truthy (selectedOption u) \<longrightarrow>
            fst (dispatch ClickApprove e u) = []
          \<and> fst (dispatch (KeyDown ''y'') e u) = []
          \<and> fst (dispatch (KeyDown ''Y'') e u) = []
          \<and> fst (dispatch (KeyDown ''Enter'') e u) = [])
       \<and> (truthy (selectedOption u) \<and> \<not> loading u \<longrightarrow>
            fst (dispatch (KeyDown ''Enter'') e u) =
              [SubmitInteractiveApproval
                 \<lparr>item_id = ai_id item, approved = True,
                  selected_option_id = selectedOption u, regenerate = None\<rparr>]
          \<and> fst (dispatch ClickApprove e u) = fst (dispatch (KeyDown ''Enter'') e u))
       \<and> (\<forall>ev d. SubmitInteractiveApproval d \<in> set (fst (dispatch ev e u)) \<and> approved d \<longrightarrow>
            truthy (selected_option_id d) \<and> selected_option_id d = selectedOption u
          \<and> item_id d = ai_id item)"
proof (intro conjI allI impI)
  show "approveDisabled u = (\<not> truthy (selectedOption u) \<or> loading u)"
    using assms by (simp add: approveDisabled_def)
next
  assume n: "\<not> truthy (selectedOption u)"
  show "fst (dispatch ClickApprove e u) = []"
    using assms n by (simp add: dispatch_def approveDisabled_def)
  show "fst (dispatch (KeyDown ''y'') e u) = []"
    using assms n approve_keys(1) [OF assms(1), of e] keyDown_loading [of u "''y''" e]
    by (cases "loading u") (simp_all add: dispatch_def)
  show "fst (dispatch (KeyDown ''Y'') e u) = []"
    using assms n approve_keys(2) [OF assms(1), of e] keyDown_loading [of u "''Y''" e]
    by (cases "loading u") (simp_all add: dispatch_def)
  show "fst (dispatch (KeyDown ''Enter'') e u) = []"
    using assms n approve_keys(3) [OF assms(1), of e] keyDown_loading [of u "''Enter''" e]
    by (cases "loading u") (simp_all add: dispatch_def)
next
  assume h: "truthy (selectedOption u) \<and> \<not> loading u"
  then have k: "dispatch (KeyDown ''Enter'') e u = handleApprove e u"
    using approve_keys(3) [OF assms(1), of e] by (simp add: dispatch_def)
  show "fst (dispatch (KeyDown ''Enter'') e u) =
              [SubmitInteractiveApproval
                 \<lparr>item_id = ai_id item, approved = True,
                  selected_option_id = selectedOption u, regenerate = None\<rparr>]"
    unfolding k using handleApprove_call [OF assms(1), of e] h by (simp add: or_undefined_def)
  show "fst (dispatch ClickApprove e u) = fst (dispatch (KeyDown ''Enter'') e u)"
    unfolding k using h assms by (simp add: dispatch_def approveDisabled_def)
next
  fix ev d
  assume h: "SubmitInteractiveApproval d \<in> set (fst (dispatch ev e u)) \<and> approved d"
  then have m: "SubmitInteractiveApproval d \<in> set (fst (dispatch ev e u))" and a: "approved d"
    by simp_all
  have r: "truthy (selectedOption u) \<and> selected_option_id d = selectedOption u
         \<and> item_id d = ai_id item"
  proof (cases ev)
    case (KeyDown k)
    with m have "SubmitInteractiveApproval d \<in> set (fst (handleKeyDown k e u))"
      by (simp add: dispatch_def)
    from keyDown_approval [OF assms this a] show ?thesis .
  next
    case ClickApprove
    with m have t: "truthy (selectedOption u)"
      and c: "SubmitInteractiveApproval d \<in> set (fst (handleApprove e u))"
      using assms by (simp_all add: dispatch_def approveDisabled_def split: if_splits)
    from c handleApprove_call [OF assms(1), of e] t show ?thesis
      by (auto simp: or_undefined_def)
  next
    case ClickReject
    with m assms other_calls(1) [OF assms(1), of d e] a show ?thesis
      by (simp add: dispatch_def split: if_splits)
  next
    case ClickRegenerate
    with m assms other_calls(2) [of d e u] show ?thesis
      by (simp add: dispatch_def split: if_splits)
  next
    case ClickSkip
    with m assms other_calls(3) [of d e u] show ?thesis
      by (simp add: dispatch_def split: if_splits)
  qed (use m assms in
        \<open>simp_all add: dispatch_def handlePauseResume_def handleStop_def split: if_splits\<close>)
  from r show "truthy (selected_option_id d)" by simp
  from r show "selected_option_id d = selectedOption u" by simp
  from r show "item_id d = ai_id item" by simp
qed

theorem choose_one_approval_carries_option_witness:
  "currentItem ui_a = Some item_a \<and> approval_type item_a = choose_one
   \<and> truthy (selectedOption ui_a) \<and> \<not> loading ui_a
   \<and> \<not> approveDisabled ui_a
   \<and> fst (dispatch (KeyDown ''Enter'') env_ok ui_a) =
       [SubmitInteractiveApproval
          \<lparr>item_id = ''item_a'', approved = True, selected_option_id = Some ''opt1'',
           regenerate = None\<rparr>]
   \<and> currentItem (ui_a\<lparr>selectedOption := None\<rparr>) = Some item_a
   \<and> approveDisabled (ui_a\<lparr>selectedOption := None\<rparr>)
   \<and> fst (dispatch (KeyDown ''Enter'') env_ok (ui_a\<lparr>selectedOption := None\<rparr>)) = []"
proof -
  let ?n = "ui_a\<lparr>selectedOption := None\<rparr>"
  have c: "currentItem ui_a = Some item_a" "currentItem ?n = Some item_a"
    by (simp_all add: ui_a_def)
  have a: "approval_type item_a = choose_one" by (simp add: item_a_def)
  have s: "truthy (selectedOption ui_a)" "selectedOption ui_a = Some ''opt1''"
    "\<not> truthy (selectedOption ?n)"
    by (simp_all add: ui_a_def truthy_def)
  have l: "\<not> loading ui_a" by (simp add: ui_a_def)
  have i: "ai_id item_a = ''item_a''" by (simp add: item_a_def)
  note t = choose_one_approval_carries_option [OF c(1) a, of env_ok]
  note t' = choose_one_approval_carries_option [OF c(2) a, of env_ok]
  from t s l have 1: "\<not> approveDisabled ui_a" by blast
  from t s l i have 2: "fst (dispatch (KeyDown ''Enter'') env_ok ui_a) =
       [SubmitInteractiveApproval
          \<lparr>item_id = ''item_a'', approved = True, selected_option_id = Some ''opt1'',
           regenerate = None\<rparr>]" by simp
  from t' s(3) have 3: "approveDisabled ?n" by blast
  from t' s(3) have 4: "fst (dispatch (KeyDown ''Enter'') env_ok ?n) = []" by blast
  show ?thesis using c a s l 1 2 3 4 by simp
qed

subsection \<open>Pipeline editors: the variations field\<close>

text \<open>
  What holds of the variations field: a template of the list gives its default, which is
  at least 1, and a text that \<^verbatim>\<open>parseInt\<close> reads as no number, as zero or as a positive
  number gives a value of at least 1.
\<close>

lemma parseInt_examples:
  "parseInt ''-1'' = Some (-1)" "parseInt '''' = None" "parseInt ''0'' = Some 0"
  "parseInt ''3'' = Some 3" "parseInt ''abc'' = None"
  by code_simp+

lemma num_or_coerces: "num_or None 1 = 1" "num_or (Some 0) 1 = 1" "0 < n \<Longrightarrow> num_or (Some n) 1 = n"
  by (simp_all add: num_or_def)

lemma num_or_nonneg: "parseInt v = None \<or> (\<exists>n. parseInt v = Some n \<and> 0 \<le> n) \<Longrightarrow> 1 \<le> num_or (parseInt v) 1"
  by (auto simp: num_or_def)

lemma addStep_variations:
  assumes "template \<in> set STEP_TEMPLATES"
  shows "variations (last (addStep template now pipeline)) =
           the (p_variations (defaultConfig template))
       \<and> 1 \<le> variations (last (addStep template now pipeline))"
  using assms by (auto simp: STEP_TEMPLATES_def addStep_def num_or_def no_fields_def)

text \<open>
  C6 does not hold of the code: both Variations inputs take the text \<open>-1\<close> (the input
  showing \<open>1\<close>, a minus sign typed in front), \<^verbatim>\<open>parseInt\<close> reads \<open>-1\<close>, which is
  truthy, and the step's \<open>variations\<close> becomes \<open>-1\<close>.
\<close>

theorem variations_input_negative:
  "map variations (flowVariationsChange 0 ''-1'' [step_art]) = [-1]
   \<and> map variations (artVariationsChange (ps_id step_art) ''-1'' [step_art]) = [-1]"
  by (simp add: flowVariationsChange_def artVariationsChange_def updateStep_def spread_def
      no_fields_def parseInt_examples num_or_def)

end
